theory Spec2Isabelle
  imports Main
begin

section \<open>Values and parameter mappings\<close>

text \<open>
  Parameter values are JavaScript primitives; numbers are restricted to integers plus
  \<open>NaN\<close>. \<open>JObject n\<close> is the object that \<^verbatim>\<open>Object.prototype\<close> holds under the name
  \<open>n\<close>: the value read from a plain object that has no property of its own under
  that name. Under any other name such a read gives \<open>undefined\<close>.
\<close>

datatype jsval = JUndefined | JNull | JBool bool | JNum int | JNaN | JStr string | JObject string

text \<open>
  What the model takes from the language as parameters: the conversion of a string to a
  number (\<open>None\<close> for \<open>NaN\<close>); the names of the properties of \<^verbatim>\<open>Object.prototype\<close>,
  which beyond those of ECMAScript 5 (15.2.4) differ from one engine to another; and
  the string that \<open>ToPrimitive\<close> gives for the object held under such a name, which
  is implementation-defined. The properties of \<^verbatim>\<open>Object.prototype\<close> are not enumerable,
  so a \<^verbatim>\<open>for\<close>-\<^verbatim>\<open>in\<close> loop does not meet them. The names that the router spells out
  when it reads a property (\<open>query\<close>, \<open>route\<close>, \<open>lastParams\<close>, \<open>notFound\<close>) are
  taken not to be among them.
\<close>

record lang =
  toNum :: "string \<Rightarrow> int option"
  protoNames :: "string list"
  protoText :: "string \<Rightarrow> string"

text \<open>
  A parameter mapping is a plain object: its own enumerable properties, in insertion
  order. \<open>get_prop\<close> is the property read \<^verbatim>\<open>obj[name]\<close>, \<open>set_prop\<close> the write
  \<^verbatim>\<open>obj[name] = v\<close>, which creates or overwrites a property of the object's own. A
  parameter named \<^verbatim>\<open>__proto__\<close>, under which a write does not do so, is outside the
  model.
\<close>

type_synonym params = "(string \<times> jsval) list"

definition get_prop :: "lang \<Rightarrow> params \<Rightarrow> string \<Rightarrow> jsval" where
  "get_prop lang obj name =
     (case map_of obj name of
        Some v \<Rightarrow> v
      | None \<Rightarrow> if name \<in> set (protoNames lang) then JObject name else JUndefined)"

fun set_prop :: "(string \<times> 'v) list \<Rightarrow> string \<Rightarrow> 'v \<Rightarrow> (string \<times> 'v) list" where
  "set_prop [] name v = [(name, v)]"
| "set_prop ((k, w) # obj) name v =
     (if k = name then (k, v) # obj else (k, w) # set_prop obj name v)"

text \<open>
  The operator \<^verbatim>\<open>==\<close> (ECMAScript 5, 11.9.3). Two objects are equal when they are the
  same object; an object is compared with a primitive through its string.
\<close>

fun toPrimitive :: "lang \<Rightarrow> jsval \<Rightarrow> jsval" where
  "toPrimitive lang (JObject n) = JStr (protoText lang n)"
| "toPrimitive lang v = v"

fun toNumber :: "lang \<Rightarrow> jsval \<Rightarrow> int option" where
  "toNumber lang JUndefined = None"
| "toNumber lang JNull = Some 0"
| "toNumber lang (JBool b) = Some (if b then 1 else 0)"
| "toNumber lang (JNum n) = Some n"
| "toNumber lang JNaN = None"
| "toNumber lang (JStr s) = toNum lang s"
| "toNumber lang (JObject n) = toNum lang (protoText lang n)"

fun loose_eq :: "lang \<Rightarrow> jsval \<Rightarrow> jsval \<Rightarrow> bool" where
  "loose_eq lang JUndefined y = (y = JUndefined \<or> y = JNull)"
| "loose_eq lang JNull y = (y = JUndefined \<or> y = JNull)"
| "loose_eq lang x JUndefined = False"
| "loose_eq lang x JNull = False"
| "loose_eq lang (JObject m) (JObject n) = (m = n)"
| "loose_eq lang x y =
     (case (toPrimitive lang x, toPrimitive lang y) of
        (JStr s, JStr t) \<Rightarrow> s = t
      | (p, q) \<Rightarrow>
          (case (toNumber lang p, toNumber lang q) of
             (Some a, Some b) \<Rightarrow> a = b
           | _ \<Rightarrow> False))"

datatype error = TypeError | URIError | Error string | TransitionError string

section \<open>The parameter diff\<close>

text \<open>
  \<^verbatim>\<open>
  function paramDiff(oldParams, newParams) {
    var diff = {},
        oldParams = oldParams || {};
    for (var name in oldParams)
      if (oldParams[name] != newParams[name]) diff[name] = 1;
    for (var name in newParams)
      if (oldParams[name] != newParams[name]) diff[name] = 1;
    return diff;
  }
  \<close>
  The diff object is used as a set of names; it is modelled by the list of its keys.
  Either argument may be \<open>undefined\<close> (\<open>None\<close>): reading a property of an undefined
  \<open>newParams\<close> in the first loop is a type error, and a loop over \<open>undefined\<close> has no
  iteration.
\<close>

definition mark :: "string list \<Rightarrow> string \<Rightarrow> string list" where
  "mark diff name = (if name \<in> set diff then diff else diff @ [name])"

fun diffLoop ::
  "lang \<Rightarrow> string list \<Rightarrow> params \<Rightarrow> params \<Rightarrow> string list \<Rightarrow> string list"
where
  "diffLoop lang [] oldParams newParams diff = diff"
| "diffLoop lang (name # names) oldParams newParams diff =
     diffLoop lang names oldParams newParams
       (if \<not> loose_eq lang (get_prop lang oldParams name) (get_prop lang newParams name)
        then mark diff name else diff)"

definition paramDiff ::
  "lang \<Rightarrow> params option \<Rightarrow> params option \<Rightarrow> error + string list"
where
  "paramDiff lang oldParams newParams =
     (let old = (case oldParams of None \<Rightarrow> [] | Some ps \<Rightarrow> ps) in
      case newParams of
        None \<Rightarrow> (if old = [] then Inr [] else Inl TypeError)
      | Some new \<Rightarrow>
          Inr (diffLoop lang (map fst new) old new (diffLoop lang (map fst old) old new [])))"

text \<open>The diff of two mappings, as a set of names.\<close>

definition diff_names :: "lang \<Rightarrow> params \<Rightarrow> params \<Rightarrow> string set" where
  "diff_names lang old new =
     (case paramDiff lang (Some old) (Some new) of Inl e \<Rightarrow> {} | Inr d \<Rightarrow> set d)"

section \<open>States, transitions and the router's variables\<close>

text \<open>
  A state object of the tree, with the fields the router reads. \<open>sid\<close> stands for the
  identity of the object (the router compares states with \<^verbatim>\<open>==\<close>): distinct state
  objects have distinct \<open>sid\<close>. \<open>fullPath\<close> is the result of \<^verbatim>\<open>state.fullPath()\<close>,
  \<open>queryParams\<close> the names of the object \<^verbatim>\<open>state.queryParams\<close>. The mutable field
  \<^verbatim>\<open>state.lastParams\<close> lives in the store \<open>lastParams\<close> of the router, indexed by \<open>sid\<close>.
\<close>

datatype state =
  State (sid: nat) (fullName: string) (fullPath: string) (queryParams: "string list")
    (parents: "state list")

text \<open>
  Modelled from the spec: StateWithParams.js is not among the sources. It pairs a state
  and a parameter mapping; the literal location \<^verbatim>\<open>_pathQuery\<close> is written by
  \<^verbatim>\<open>setState\<close> after the construction.
\<close>

record swp =
  sw_state :: "state option"
  sw_params :: "params option"
  sw_pathQuery :: "string option"

definition StateWithParams :: "state option \<Rightarrow> params option \<Rightarrow> swp" where
  "StateWithParams state params =
     \<lparr>sw_state = state, sw_params = params, sw_pathQuery = None\<rparr>"

text \<open>
  Modelled from the spec: Transition.js is not among the sources. The handle exposes
  \<open>from\<close>, \<open>to\<close> (the target state) and \<open>toParams\<close> (the target parameter mapping);
  \<open>cancel()\<close> marks it cancelled, and a cancelled transition never reports success or
  failure. \<^verbatim>\<open>setState\<close> pairs the field \<^verbatim>\<open>currentState\<close> of a superseded transition with
  its \<open>toParams\<close> to make the source of the next one; the specification gives that
  source as the stale transition's target, so the field holds the target state.
  \<open>tr_fromState\<close>, \<open>tr_toState\<close> and \<open>tr_reload\<close> are the variables that the
  callbacks given to \<^verbatim>\<open>transition.then\<close> close over.
\<close>

record transition =
  tr_from :: "state option"
  tr_to :: "state option"
  tr_toParams :: "params option"
  tr_currentState :: "state option"
  tr_cancelled :: bool
  tr_paramDiff :: "string list"
  tr_reload :: bool
  tr_fromState :: "swp option"
  tr_toState :: swp

definition Transition :: "swp option \<Rightarrow> swp \<Rightarrow> string list \<Rightarrow> bool \<Rightarrow> transition" where
  "Transition fromState toState diff reload =
     \<lparr>tr_from = (case fromState of None \<Rightarrow> None | Some f \<Rightarrow> sw_state f),
      tr_to = sw_state toState,
      tr_toParams = sw_params toState,
      tr_currentState = sw_state toState,
      tr_cancelled = False,
      tr_paramDiff = diff,
      tr_reload = reload,
      tr_fromState = fromState,
      tr_toState = toState\<rparr>"

text \<open>
  The signals. A dispatch is recorded with its two arguments: the \<open>started\<close>,
  \<open>completed\<close> and \<open>failed\<close> signals carry StateWithParams objects, the \<open>cancelled\<close>
  signal carries the states \<^verbatim>\<open>transition.to\<close> and \<^verbatim>\<open>transition.from\<close>.
\<close>

datatype evarg = ASwp "swp option" | AState "state option"

datatype event =
    Started evarg evarg
  | Completed evarg evarg
  | Failed evarg evarg
  | Cancelled evarg evarg
  | Ended evarg evarg
  | Initialized

text \<open>Calls of the history API, with the location that is both payload and URL.\<close>

datatype hist = PushState "string option" | ReplaceState "string option"

text \<open>
  The variables of the closure \<^verbatim>\<open>Router\<close>, the dispatches and history calls made so
  far, and \<open>initializedOnce\<close>: the listener registered with \<^verbatim>\<open>addOnce\<close> on
  \<^verbatim>\<open>transition.completed\<close> is still attached.
\<close>

record router =
  states :: "string \<rightharpoonup> state"
  firstTransition :: bool
  notFoundState :: "state option"
  ignoreNextPopState :: bool
  currentPathQuery :: "string option"
  currentState :: "swp option"
  transition :: "transition option"
  leafStates :: "(string \<rightharpoonup> state) option"
  stateFound :: bool
  poppedState :: bool
  initialized :: bool
  lastParams :: "nat \<Rightarrow> params option"
  events :: "event list"
  history :: "hist list"
  initializedOnce :: bool

text \<open>
  What the router takes from its collaborators: the parameters of the language above
  and \<^verbatim>\<open>decodeURIComponent\<close> (\<open>None\<close>: URIError), \<^verbatim>\<open>history.emulate\<close>,
  \<^verbatim>\<open>util.normalizePathQuery\<close>, the location read by \<^verbatim>\<open>urlPathQuery()\<close>, and the routing
  table: \<open>parse\<close> gives the leaf state whose route matches a location, with the
  positional arguments and the query object the route's \<open>matched\<close> signal passes,
  \<open>interpolate\<close> is \<^verbatim>\<open>state.route.interpolate\<close>, and \<open>typecast\<close> is the type coercion
  the table applies to a value that went through a location (\<^verbatim>\<open>roads.shouldTypecast\<close>).
\<close>

datatype crvalue = Prim jsval | Obj params

type_synonym crparams = "(string \<times> crvalue) list"

record env =
  jslang :: lang
  decodeURIComponent :: "string \<Rightarrow> string option"
  emulate :: bool
  normalizePathQuery :: "string \<Rightarrow> string"
  urlPathQuery :: string
  parse :: "string \<Rightarrow> (state \<times> jsval list \<times> params option) option"
  interpolate :: "state \<Rightarrow> crparams \<Rightarrow> error + string"
  typecast :: "jsval \<Rightarrow> jsval"

text \<open>An operation returns normally or throws; either way the router's variables persist.\<close>

datatype result = Ok router | Threw error router

definition the_router :: "result \<Rightarrow> router" where
  "the_router r = (case r of Ok st \<Rightarrow> st | Threw e st \<Rightarrow> st)"

definition Router :: "(string \<rightharpoonup> state) \<Rightarrow> router" where
  "Router declarativeStates =
     \<lparr>states = declarativeStates, firstTransition = True, notFoundState = None,
      ignoreNextPopState = False, currentPathQuery = None, currentState = None,
      transition = None, leafStates = None, stateFound = False, poppedState = False,
      initialized = False, lastParams = (\<lambda>i. None), events = [], history = [],
      initializedOnce = True\<rparr>"

section \<open>Signals and history\<close>

definition transitionEnded :: "router \<Rightarrow> evarg \<Rightarrow> evarg \<Rightarrow> router" where
  "transitionEnded st newState oldState =
     st\<lparr>events := events st @ [Ended newState oldState]\<rparr>"

text \<open>
  The listeners of \<open>completed\<close> run in the order they were added: first the one-shot
  listener that dispatches \<open>router.initialized\<close>, then \<open>transitionEnded\<close>.
\<close>

definition dispatch_completed :: "router \<Rightarrow> evarg \<Rightarrow> evarg \<Rightarrow> router" where
  "dispatch_completed st a b =
     (let st1 = st\<lparr>events := events st @ [Completed a b]\<rparr>;
          st2 = (if initializedOnce st1
                 then st1\<lparr>initializedOnce := False, events := events st1 @ [Initialized]\<rparr>
                 else st1)
      in transitionEnded st2 a b)"

definition dispatch_failed :: "router \<Rightarrow> evarg \<Rightarrow> evarg \<Rightarrow> router" where
  "dispatch_failed st a b = transitionEnded (st\<lparr>events := events st @ [Failed a b]\<rparr>) a b"

definition dispatch_cancelled :: "router \<Rightarrow> evarg \<Rightarrow> evarg \<Rightarrow> router" where
  "dispatch_cancelled st a b =
     transitionEnded (st\<lparr>events := events st @ [Cancelled a b]\<rparr>) a b"

definition replaceState :: "env \<Rightarrow> router \<Rightarrow> string option \<Rightarrow> router" where
  "replaceState env st url =
     st\<lparr>ignoreNextPopState := (emulate env \<or> ignoreNextPopState st),
        history := history st @ [ReplaceState url]\<rparr>"

definition pushState :: "env \<Rightarrow> router \<Rightarrow> string option \<Rightarrow> router" where
  "pushState env st url =
     st\<lparr>ignoreNextPopState := (emulate env \<or> ignoreNextPopState st),
        history := history st @ [PushState url]\<rparr>"

section \<open>Starting, cancelling and settling a transition\<close>

definition cancelTransition :: "router \<Rightarrow> transition \<Rightarrow> router" where
  "cancelTransition st t =
     dispatch_cancelled
       (st\<lparr>transition := Some (t\<lparr>tr_cancelled := True\<rparr>), firstTransition := False\<rparr>)
       (AState (tr_to t)) (AState (tr_from t))"

definition startingTransition :: "router \<Rightarrow> swp option \<Rightarrow> swp \<Rightarrow> router" where
  "startingTransition st fromState toState =
     st\<lparr>events := events st @ [Started (ASwp (Some toState)) (ASwp fromState)]\<rparr>"

text \<open>
  \<^verbatim>\<open>
  function isSameState(newState, newParams) {
    var state, params, diff;
    if (transition) { state = transition.to; params = transition.toParams; }
    else if (currentState) { state = currentState._state; params = currentState.params; }
    diff = paramDiff(params, newParams);
    return (newState == state) && (util.objectSize(diff) == 0);
  }
  \<close>
\<close>

definition isSameState ::
  "env \<Rightarrow> router \<Rightarrow> state option \<Rightarrow> params option \<Rightarrow> error + bool"
where
  "isSameState env st newState newParams =
     (let (state, params) =
            (case transition st of
               Some t \<Rightarrow> (tr_to t, tr_toParams t)
             | None \<Rightarrow>
                (case currentState st of
                   Some cs \<Rightarrow> (sw_state cs, sw_params cs)
                 | None \<Rightarrow> (None, None)))
      in case paramDiff (jslang env) params newParams of
           Inl e \<Rightarrow> Inl e
         | Inr diff \<Rightarrow> Inr (newState = state \<and> length diff = 0))"

text \<open>
  \<^verbatim>\<open>setState\<close>, up to the creation of the transition. The object \<open>toState\<close> is also
  \<open>currentState\<close>, so it carries the location written to \<^verbatim>\<open>currentState._pathQuery\<close>.
  Reading \<^verbatim>\<open>fromState._pathQuery\<close> of an undefined \<open>fromState\<close> is a type error.
\<close>

definition setState ::
  "env \<Rightarrow> router \<Rightarrow> state option \<Rightarrow> params option \<Rightarrow> bool \<Rightarrow> result"
where
  "setState env st state params reload =
     (case (if reload then Inr False else isSameState env st state params) of
        Inl e \<Rightarrow> Threw e st
      | Inr True \<Rightarrow> Ok st
      | Inr False \<Rightarrow>
         (let (st1, fromState) =
                (case transition st of
                   Some t \<Rightarrow>
                     (cancelTransition st t,
                      Some (StateWithParams (tr_currentState t) (tr_toParams t)))
                 | None \<Rightarrow> (st, currentState st));
              toState = (StateWithParams state params)\<lparr>sw_pathQuery := currentPathQuery st1\<rparr>;
              st2 = st1\<lparr>currentState := Some toState\<rparr>;
              reverted =
                (if poppedState st2
                 then (case fromState of
                         None \<Rightarrow> Inl TypeError
                       | Some f \<Rightarrow> Inr (replaceState env st2 (sw_pathQuery f)))
                 else Inr st2)
          in case reverted of
               Inl e \<Rightarrow> Threw e st2
             | Inr st3 \<Rightarrow>
                (let st4 = startingTransition st3 fromState toState
                 in case paramDiff (jslang env)
                           (case fromState of None \<Rightarrow> None | Some f \<Rightarrow> sw_params f) params of
                      Inl e \<Rightarrow> Threw e st4
                    | Inr diff \<Rightarrow>
                        Ok (st4\<lparr>transition :=
                                  Some (Transition fromState toState diff reload)\<rparr>))))"

text \<open>
  \<^verbatim>\<open>transitionCompleted\<close>: writing \<^verbatim>\<open>toState._state.lastParams\<close> is a type error when
  \<^verbatim>\<open>toState._state\<close> is undefined.
\<close>

definition transitionCompleted :: "router \<Rightarrow> swp option \<Rightarrow> swp \<Rightarrow> result" where
  "transitionCompleted st fromState toState =
     (let st1 = st\<lparr>firstTransition := False\<rparr>
      in case sw_state toState of
           None \<Rightarrow> Threw TypeError st1
         | Some s \<Rightarrow>
             Ok (dispatch_completed
                   (st1\<lparr>lastParams := (lastParams st1)(sid s := sw_params toState)\<rparr>)
                   (ASwp (Some toState)) (ASwp fromState)))"

text \<open>
  The callbacks of \<^verbatim>\<open>transition.then\<close> for the transition \<open>t\<close>. An error thrown in
  \<open>success\<close> reaches \<^verbatim>\<open>transitionError\<close>, which rethrows it outside of the promise. In
  \<open>fail\<close>, \<^verbatim>\<open>transitionFailed\<close> rethrows the error of the transition after the dispatch;
  \<^verbatim>\<open>transitionError\<close> logs a transition error and rethrows any other.
\<close>

definition success :: "env \<Rightarrow> router \<Rightarrow> transition \<Rightarrow> result" where
  "success env st t =
     (let st1 = st\<lparr>transition := None\<rparr>;
          st2 = (if \<not> poppedState st1 \<and> \<not> firstTransition st1 \<and> \<not> tr_reload t
                 then pushState env st1 (currentPathQuery st1) else st1)
      in if poppedState st2
         then (case currentState st2 of
                 None \<Rightarrow> Threw TypeError st2
               | Some cs \<Rightarrow>
                   transitionCompleted (replaceState env st2 (sw_pathQuery cs))
                     (tr_fromState t) (tr_toState t))
         else transitionCompleted st2 (tr_fromState t) (tr_toState t))"

definition fail :: "router \<Rightarrow> transition \<Rightarrow> error \<Rightarrow> result" where
  "fail st t err =
     (let st1 = st\<lparr>transition := None, currentState := tr_fromState t\<rparr>;
          st2 = dispatch_failed st1 (ASwp (Some (tr_toState t))) (ASwp (tr_fromState t))
      in case err of
           TransitionError m \<Rightarrow> Ok st2
         | _ \<Rightarrow> Threw err st2)"

text \<open>
  The engine's side, for the transition held by the router: its promise is fulfilled or
  rejected. A cancelled transition does neither.
\<close>

definition resolve :: "env \<Rightarrow> router \<Rightarrow> result" where
  "resolve env st =
     (case transition st of
        None \<Rightarrow> Ok st
      | Some t \<Rightarrow> if tr_cancelled t then Ok st else success env st t)"

definition reject :: "router \<Rightarrow> error \<Rightarrow> result" where
  "reject st err =
     (case transition st of
        None \<Rightarrow> Ok st
      | Some t \<Rightarrow> if tr_cancelled t then Ok st else fail st t err)"

section \<open>The parameter codec\<close>

text \<open>
  The names of the placeholders of a path template, in order: the matches of the regular
  expression \<^verbatim>\<open>/\{\w*\}/g\<close>, without the braces.
\<close>

definition isWordChar :: "char \<Rightarrow> bool" where
  "isWordChar c =
     (c \<in> set ''abcdefghijklmnopqrstuvwxyzABCDEFGHIJKLMNOPQRSTUVWXYZ0123456789_'')"

function placeholders :: "string \<Rightarrow> string list" where
  "placeholders [] = []"
| "placeholders (c # cs) =
     (if c = CHR ''{''
      then (case dropWhile isWordChar cs of
              [] \<Rightarrow> placeholders cs
            | d # rest \<Rightarrow>
                if d = CHR ''}'' then takeWhile isWordChar cs # placeholders rest
                else placeholders cs)
      else placeholders cs)"
  by pat_completeness auto
termination
proof (relation "measure length")
  show "wf (measure length)" by simp
next
  fix c :: char and cs d rest
  assume "dropWhile isWordChar cs = d # rest"
  then have "length (d # rest) \<le> length cs"
    by (metis length_dropWhile_le)
  then show "(rest, c # cs) \<in> measure length" by simp
qed simp_all

text \<open>
  \<^verbatim>\<open>fromCrossroadsParams(state, crossroadsArgs)\<close>. The arguments of a route whose pattern
  ends in \<^verbatim>\<open>:?query:\<close> are the positional values followed by the query object, which
  \<^verbatim>\<open>args.pop()\<close> takes off; \<^verbatim>\<open>args.shift()\<close> of an exhausted array is \<open>undefined\<close>.
\<close>

fun assignPath :: "string list \<Rightarrow> jsval list \<Rightarrow> params \<Rightarrow> params" where
  "assignPath [] args ps = ps"
| "assignPath (pathName # names) args ps =
     assignPath names (tl args)
       (set_prop ps pathName (case args of [] \<Rightarrow> JUndefined | a # rest \<Rightarrow> a))"

fun mergeObjects :: "params \<Rightarrow> params \<Rightarrow> params" where
  "mergeObjects to [] = to"
| "mergeObjects to ((k, v) # from) = mergeObjects (set_prop to k v) from"

fun decodeAll :: "(string \<Rightarrow> string option) \<Rightarrow> params \<Rightarrow> error + params" where
  "decodeAll dec [] = Inr []"
| "decodeAll dec ((k, v) # ps) =
     (case (case v of
              JStr s \<Rightarrow> (case dec s of None \<Rightarrow> Inl URIError | Some s' \<Rightarrow> Inr (JStr s'))
            | _ \<Rightarrow> Inr v) of
        Inl e \<Rightarrow> Inl e
      | Inr v' \<Rightarrow>
          (case decodeAll dec ps of
             Inl e \<Rightarrow> Inl e
           | Inr ps' \<Rightarrow> Inr ((k, v') # ps')))"

definition fromCrossroadsParams ::
  "env \<Rightarrow> state \<Rightarrow> jsval list \<times> params option \<Rightarrow> error + params"
where
  "fromCrossroadsParams env state crossroadsArgs =
     (let (args, query) = crossroadsArgs;
          params = assignPath (placeholders (fullPath state)) args [];
          merged = (case query of None \<Rightarrow> params | Some q \<Rightarrow> mergeObjects params q)
      in decodeAll (decodeURIComponent env) merged)"

text \<open>
  \<^verbatim>\<open>toCrossroadsParams(state, abyssaParams)\<close>. The result object holds the path values
  under their names and the query values in an object under the key \<open>query\<close>, which is
  not a name of \<^verbatim>\<open>Object.prototype\<close>. The file is in strict mode: writing a property of
  a truthy primitive stored under \<open>query\<close> is a type error; a falsy one is replaced by
  a fresh object. The test \<^verbatim>\<open>allQueryParams[key]\<close> reads a plain object: it holds for
  the declared query parameters and for the names of \<^verbatim>\<open>Object.prototype\<close>.
\<close>

fun truthy :: "jsval \<Rightarrow> bool" where
  "truthy JUndefined = False"
| "truthy JNull = False"
| "truthy (JBool b) = b"
| "truthy (JNum n) = (n \<noteq> 0)"
| "truthy JNaN = False"
| "truthy (JStr s) = (s \<noteq> [])"
| "truthy (JObject n) = True"

fun splitLoop :: "string list \<Rightarrow> params \<Rightarrow> crparams \<Rightarrow> error + crparams" where
  "splitLoop allQueryParams [] acc = Inr acc"
| "splitLoop allQueryParams ((key, v) # rest) acc =
     (if key \<in> set allQueryParams
      then (case map_of acc ''query'' of
              Some (Obj q) \<Rightarrow>
                splitLoop allQueryParams rest (set_prop acc ''query'' (Obj (set_prop q key v)))
            | Some (Prim p) \<Rightarrow>
                if truthy p then Inl TypeError
                else splitLoop allQueryParams rest (set_prop acc ''query'' (Obj [(key, v)]))
            | None \<Rightarrow>
                splitLoop allQueryParams rest (set_prop acc ''query'' (Obj [(key, v)])))
      else splitLoop allQueryParams rest (set_prop acc key (Prim v)))"

definition allQueryParams :: "state \<Rightarrow> string list" where
  "allQueryParams state = concat (map queryParams (state # parents state))"

definition queryNames :: "env \<Rightarrow> state \<Rightarrow> string list" where
  "queryNames env state = allQueryParams state @ protoNames (jslang env)"

definition toCrossroadsParams :: "env \<Rightarrow> state \<Rightarrow> params \<Rightarrow> error + crparams" where
  "toCrossroadsParams env state abyssaParams =
     splitLoop (queryNames env state) abyssaParams []"

text \<open>
  Modelled from the spec: the routing table is a collaborator outside the sources. Between
  the split and the merge it hands back what it was given, with its type coercion
  applied: the path values in the order of the template's placeholders (\<open>undefined\<close>
  where the split object holds no value) and the query mapping stored under the key
  \<open>query\<close>.
\<close>

definition primval :: "crparams \<Rightarrow> string \<Rightarrow> jsval option" where
  "primval cp n = (case map_of cp n of Some (Prim v) \<Rightarrow> Some v | _ \<Rightarrow> None)"

definition pathval :: "env \<Rightarrow> crparams \<Rightarrow> string \<Rightarrow> jsval" where
  "pathval env cp n =
     (case primval cp n of Some v \<Rightarrow> typecast env v | None \<Rightarrow> JUndefined)"

definition queryobj :: "crparams \<Rightarrow> params option" where
  "queryobj cp = (case map_of cp ''query'' of Some (Obj q) \<Rightarrow> Some q | _ \<Rightarrow> None)"

definition route_args :: "env \<Rightarrow> state \<Rightarrow> crparams \<Rightarrow> jsval list \<times> params option" where
  "route_args env state cp =
     (map (pathval env cp) (placeholders (fullPath state)),
      map_option (map (\<lambda>(k, v). (k, typecast env v))) (queryobj cp))"

text \<open>Merging back the split of a parameter mapping.\<close>

definition merge_split :: "env \<Rightarrow> state \<Rightarrow> params \<Rightarrow> error + params" where
  "merge_split env state P =
     (case toCrossroadsParams env state P of
        Inl e \<Rightarrow> Inl e
      | Inr cp \<Rightarrow> fromCrossroadsParams env state (route_args env state cp))"

text \<open>
  URL-decoding of a value: strings are decoded, other values are left as they are.
\<close>

definition decodable :: "(string \<Rightarrow> string option) \<Rightarrow> jsval \<Rightarrow> bool" where
  "decodable dec v = (case v of JStr s \<Rightarrow> dec s \<noteq> None | _ \<Rightarrow> True)"

definition urldecoded :: "(string \<Rightarrow> string option) \<Rightarrow> jsval \<Rightarrow> jsval" where
  "urldecoded dec v =
     (case v of
        JStr s \<Rightarrow> (case dec s of Some s' \<Rightarrow> JStr s' | None \<Rightarrow> JStr s)
      | _ \<Rightarrow> v)"

section \<open>The public operations\<close>

definition notFound :: "env \<Rightarrow> router \<Rightarrow> string \<Rightarrow> result" where
  \<open>notFound env st name =
     (case notFoundState st of
        Some nf \<Rightarrow> setState env st (Some nf) None False
      | None \<Rightarrow> Threw (Error (''State "'' @ name @ ''" could not be found'')) st)\<close>

text \<open>The listener of a leaf's \<^verbatim>\<open>route.matched\<close>.\<close>

definition matched :: "env \<Rightarrow> router \<Rightarrow> state \<Rightarrow> jsval list \<times> params option \<Rightarrow> result" where
  "matched env st state crossroadsArgs =
     (let st1 = st\<lparr>stateFound := True\<rparr>
      in case fromCrossroadsParams env state crossroadsArgs of
           Inl e \<Rightarrow> Threw e st1
         | Inr params \<Rightarrow> setState env st1 (Some state) (Some params) False)"

definition setStateForPathQuery :: "env \<Rightarrow> router \<Rightarrow> string \<Rightarrow> result" where
  "setStateForPathQuery env st pathQuery =
     (let pq = normalizePathQuery env pathQuery;
          st1 = st\<lparr>currentPathQuery := Some pq, stateFound := False\<rparr>
      in case (case parse env pq of
                 None \<Rightarrow> Ok st1
               | Some (state, crossroadsArgs) \<Rightarrow> matched env st1 state crossroadsArgs) of
           Threw e st2 \<Rightarrow> Threw e st2
         | Ok st2 \<Rightarrow> if \<not> stateFound st2 then notFound env st2 pq else Ok st2)"

text \<open>
  The objects \<open>leafStates\<close> and \<open>states\<close> are plain objects. Under a name of
  \<^verbatim>\<open>Object.prototype\<close> that is not registered, a read gives the inherited object: it is
  truthy and not \<open>undefined\<close>, it has no \<open>lastParams\<close>, and reading
  \<^verbatim>\<open>state.route.interpolate\<close> of it is a type error.
\<close>

definition setStateByName :: "env \<Rightarrow> router \<Rightarrow> string \<Rightarrow> params \<Rightarrow> result" where
  "setStateByName env st name params =
     (case leafStates st of
        None \<Rightarrow> Threw TypeError st
      | Some leaves \<Rightarrow>
         (case leaves name of
            None \<Rightarrow>
              if name \<in> set (protoNames (jslang env)) then Threw TypeError st
              else notFound env st name
          | Some state \<Rightarrow>
             (case toCrossroadsParams env state params of
                Inl e \<Rightarrow> Threw e st
              | Inr cp \<Rightarrow>
                 (case interpolate env state cp of
                    Inl e \<Rightarrow> Threw e st
                  | Inr pathQuery \<Rightarrow> setStateForPathQuery env st pathQuery))))"

text \<open>
  The operation \<^verbatim>\<open>state(pathQueryOrName, params)\<close>, of which \<^verbatim>\<open>redirect\<close> is an alias.
  Before \<^verbatim>\<open>init\<close> the index \<open>leafStates\<close> is undefined and reading it is a type error.
\<close>

definition state_op :: "env \<Rightarrow> router \<Rightarrow> string \<Rightarrow> params option \<Rightarrow> result" where
  "state_op env st pathQueryOrName params =
     (case leafStates st of
        None \<Rightarrow> Threw TypeError st
      | Some leaves \<Rightarrow>
         (let isName = (leaves pathQueryOrName \<noteq> None
                        \<or> pathQueryOrName \<in> set (protoNames (jslang env)));
              st1 = st\<lparr>poppedState := False\<rparr>
          in if isName
             then setStateByName env st1 pathQueryOrName
                    (case params of None \<Rightarrow> [] | Some p \<Rightarrow> p)
             else setStateForPathQuery env st1 pathQueryOrName))"

definition redirect :: "env \<Rightarrow> router \<Rightarrow> string \<Rightarrow> params option \<Rightarrow> result" where
  "redirect env st pathQueryOrName params = state_op env st pathQueryOrName params"

text \<open>
  \<^verbatim>\<open>
  function backTo(stateName, defaultParams) {
    var params = leafStates[stateName].lastParams || defaultParams;
    state(stateName, params);
  }
  \<close>
\<close>

definition backTo :: "env \<Rightarrow> router \<Rightarrow> string \<Rightarrow> params option \<Rightarrow> result" where
  "backTo env st stateName defaultParams =
     (case leafStates st of
        None \<Rightarrow> Threw TypeError st
      | Some leaves \<Rightarrow>
         (case leaves stateName of
            None \<Rightarrow>
              if stateName \<in> set (protoNames (jslang env))
              then state_op env st stateName defaultParams
              else Threw TypeError st
          | Some s \<Rightarrow>
              state_op env st stateName
                (case lastParams st (sid s) of Some p \<Rightarrow> Some p | None \<Rightarrow> defaultParams)))"

definition reload :: "env \<Rightarrow> router \<Rightarrow> result" where
  "reload env st =
     (case currentState st of
        None \<Rightarrow> Threw TypeError st
      | Some cs \<Rightarrow> setState env st (sw_state cs) (sw_params cs) True)"

definition addState :: "env \<Rightarrow> router \<Rightarrow> string \<Rightarrow> state \<Rightarrow> result" where
  "addState env st name state =
     (if initialized st
      then Threw (Error ''States can only be added before the Router is initialized'') st
      else if states st name \<noteq> None \<or> name \<in> set (protoNames (jslang env))
      then Threw (Error (''A state already exist in the router with the name '' @ name)) st
      else Ok (st\<lparr>states := (states st)(name \<mapsto> state)\<rparr>))"

text \<open>Of the options of \<^verbatim>\<open>configure\<close>, \<open>notFound\<close> is the one the model keeps.\<close>

definition configure :: "router \<Rightarrow> state option \<Rightarrow> router" where
  "configure st nf = st\<lparr>notFoundState := nf\<rparr>"

text \<open>
  \<^verbatim>\<open>init(initState, initParams)\<close>. State.js is not among the sources: the index of the
  leaf states that \<^verbatim>\<open>initStates()\<close> builds from the tree is the argument \<open>leaves\<close>. The
  handler \<^verbatim>\<open>window.onpopstate\<close> is installed and the latch \<open>initialized\<close> set only when
  the first request did not throw.
\<close>

definition init ::
  "env \<Rightarrow> (string \<rightharpoonup> state) \<Rightarrow> router \<Rightarrow> string option \<Rightarrow> params option \<Rightarrow> result"
where
  "init env leaves st initState initParams =
     (let st1 = st\<lparr>leafStates := Some leaves\<rparr>;
          target = (case initState of Some s \<Rightarrow> s | None \<Rightarrow> urlPathQuery env)
      in case state_op env st1 target initParams of
           Threw e st2 \<Rightarrow> Threw e st2
         | Ok st2 \<Rightarrow> Ok (st2\<lparr>initialized := True\<rparr>))"

text \<open>
  The handler of \<^verbatim>\<open>popstate\<close>; \<open>evtState\<close> is \<^verbatim>\<open>evt.state\<close>, a location or nothing. The
  handler exists once \<^verbatim>\<open>init\<close> has returned.
\<close>

definition onpopstate :: "env \<Rightarrow> router \<Rightarrow> string option \<Rightarrow> result" where
  "onpopstate env st evtState =
     (if \<not> initialized st then Ok st
      else if ignoreNextPopState st then Ok (st\<lparr>ignoreNextPopState := False\<rparr>)
      else (let newState = (case evtState of
                              None \<Rightarrow> urlPathQuery env
                            | Some s \<Rightarrow> if s = [] then urlPathQuery env else s)
            in setStateForPathQuery env (st\<lparr>poppedState := True\<rparr>) newState))"

section \<open>Runs of the router\<close>

text \<open>
  What can happen to a router: a call of one of its public operations, a \<open>popstate\<close>
  event, and the engine settling the transition in flight. After a throw the router goes
  on from the variables as the throw left them.
\<close>

datatype action =
    Configure "state option"
  | AddState string state
  | Init "string \<rightharpoonup> state" "string option" "params option"
  | Navigate string "params option"
  | BackTo string "params option"
  | Reload
  | PopState "string option"
  | Resolve
  | Reject error

fun perform :: "env \<Rightarrow> router \<Rightarrow> action \<Rightarrow> result" where
  "perform env st (Configure nf) = Ok (configure st nf)"
| "perform env st (AddState name state) = addState env st name state"
| "perform env st (Init leaves initState initParams) = init env leaves st initState initParams"
| "perform env st (Navigate pathQueryOrName params) = state_op env st pathQueryOrName params"
| "perform env st (BackTo stateName defaultParams) = backTo env st stateName defaultParams"
| "perform env st Reload = reload env st"
| "perform env st (PopState evtState) = onpopstate env st evtState"
| "perform env st Resolve = resolve env st"
| "perform env st (Reject err) = reject st err"

fun run :: "env \<Rightarrow> router \<Rightarrow> action list \<Rightarrow> router" where
  "run env st [] = st"
| "run env st (a # as) = run env (the_router (perform env st a)) as"

section \<open>The order of the lifecycle events\<close>

text \<open>
  The order the specification gives, as an automaton over the dispatches: \<open>started\<close>;
  then one of \<open>completed\<close>, \<open>failed\<close> (with the arguments of \<open>started\<close>) and
  \<open>cancelled\<close> (with their states); after the first \<open>completed\<close>, and nowhere else,
  \<open>router.initialized\<close>; then \<open>ended\<close> with the arguments of the event it follows.
  The flag tells that \<open>router.initialized\<close> has been dispatched.
\<close>

datatype phase =
    Idle
  | Pending evarg evarg
  | AwaitInitialized evarg evarg
  | AwaitEnded evarg evarg

fun state_arg :: "evarg \<Rightarrow> evarg" where
  "state_arg (ASwp None) = AState None"
| "state_arg (ASwp (Some w)) = AState (sw_state w)"
| "state_arg (AState s) = AState s"

fun lifecycle_step :: "(phase \<times> bool) option \<Rightarrow> event \<Rightarrow> (phase \<times> bool) option" where
  "lifecycle_step (Some (Idle, i)) (Started a b) = Some (Pending a b, i)"
| "lifecycle_step (Some (Pending a b, i)) (Completed c d) =
     (if c = a \<and> d = b
      then Some (if i then AwaitEnded a b else AwaitInitialized a b, i)
      else None)"
| "lifecycle_step (Some (Pending a b, i)) (Failed c d) =
     (if c = a \<and> d = b then Some (AwaitEnded a b, i) else None)"
| "lifecycle_step (Some (Pending a b, i)) (Cancelled c d) =
     (if c = state_arg a \<and> d = state_arg b then Some (AwaitEnded c d, i) else None)"
| "lifecycle_step (Some (AwaitInitialized a b, i)) Initialized = Some (AwaitEnded a b, True)"
| "lifecycle_step (Some (AwaitEnded a b, i)) (Ended c d) =
     (if c = a \<and> d = b then Some (Idle, i) else None)"
| "lifecycle_step s e = None"

definition lifecycle :: "event list \<Rightarrow> (phase \<times> bool) option" where
  "lifecycle es = foldl lifecycle_step (Some (Idle, False)) es"

definition lifecycle_ok :: "event list \<Rightarrow> bool" where
  "lifecycle_ok es =
     (case lifecycle es of
        Some (Idle, i) \<Rightarrow> True
      | Some (Pending a b, i) \<Rightarrow> True
      | _ \<Rightarrow> False)"

fun is_completed :: "event \<Rightarrow> bool" where
  "is_completed (Completed a b) = True"
| "is_completed e = False"

fun is_push :: "hist \<Rightarrow> bool" where
  "is_push (PushState url) = True"
| "is_push (ReplaceState url) = False"

fun is_initialized :: "event \<Rightarrow> bool" where
  "is_initialized Initialized = True"
| "is_initialized e = False"

text \<open>
  What holds of the router's variables between two actions. The current state pairs a
  state. While a transition is held, it is not cancelled, its target is the current
  state, and the dispatches so far end with its \<open>started\<close>; otherwise every navigation
  that started has ended. The one-shot listener is attached as long as
  \<open>router.initialized\<close> has not been dispatched.
\<close>

definition pairs_state :: "swp option \<Rightarrow> bool" where
  "pairs_state w = (case w of None \<Rightarrow> True | Some cs \<Rightarrow> sw_state cs \<noteq> None)"

definition router_inv :: "router \<Rightarrow> bool" where
  "router_inv st =
     (pairs_state (currentState st)
      \<and> (case transition st of
            None \<Rightarrow> lifecycle (events st) = Some (Idle, \<not> initializedOnce st)
          | Some t \<Rightarrow>
              \<not> tr_cancelled t
              \<and> currentState st = Some (tr_toState t)
              \<and> tr_to t = sw_state (tr_toState t)
              \<and> tr_toParams t = sw_params (tr_toState t)
              \<and> tr_currentState t = tr_to t
              \<and> pairs_state (tr_fromState t)
              \<and> tr_from t = (case tr_fromState t of None \<Rightarrow> None | Some f \<Rightarrow> sw_state f)
              \<and> lifecycle (events st)
                  = Some (Pending (ASwp (Some (tr_toState t))) (ASwp (tr_fromState t)),
                          \<not> initializedOnce st)))"

text \<open>
  What a request dispatches when it is not ignored: \<open>cancelled\<close> and \<open>ended\<close> for the
  transition in flight, if there is one, and then \<open>started\<close> for the new one, from the
  source that \<^verbatim>\<open>setState\<close> gives it. The requests are the actions other than the two
  of the engine.
\<close>

definition cancel_events :: "router \<Rightarrow> event list" where
  "cancel_events st =
     (case transition st of
        None \<Rightarrow> []
      | Some t \<Rightarrow>
          [Cancelled (AState (tr_to t)) (AState (tr_from t)),
           Ended (AState (tr_to t)) (AState (tr_from t))])"

definition next_source :: "router \<Rightarrow> swp option" where
  "next_source st =
     (case transition st of
        None \<Rightarrow> currentState st
      | Some t \<Rightarrow> Some (StateWithParams (tr_currentState t) (tr_toParams t)))"

definition requested :: "router \<Rightarrow> router \<Rightarrow> bool" where
  "requested st st' =
     (events st' = events st
      \<or> events st' =
          events st @ cancel_events st
          @ [Started (ASwp (currentState st')) (ASwp (next_source st))])"

fun is_request :: "action \<Rightarrow> bool" where
  "is_request Resolve = False"
| "is_request (Reject err) = False"
| "is_request a = True"

section \<open>A small router\<close>

text \<open>
  Three leaf states without path parameters; \<open>b\<close> declares the query parameter \<open>x\<close>.
  The routing table matches the three locations below and nothing else, and casts the
  numeric string \<open>33\<close> to the number. The names of \<^verbatim>\<open>Object.prototype\<close> are those of
  ECMAScript 5 and the five that the engines of browsers add.
\<close>

definition stateA :: state where "stateA = State 1 ''a'' ''a'' [] []"
definition stateB :: state where "stateB = State 2 ''b'' ''b'' [''x''] []"
definition stateC :: state where "stateC = State 3 ''c'' ''c'' [] []"

definition leaves3 :: "string \<rightharpoonup> state" where
  "leaves3 = [''a'' \<mapsto> stateA, ''b'' \<mapsto> stateB, ''c'' \<mapsto> stateC]"

definition objectPrototype :: "string list" where
  "objectPrototype =
     [''constructor'', ''toString'', ''toLocaleString'', ''valueOf'', ''hasOwnProperty'',
      ''isPrototypeOf'', ''propertyIsEnumerable'', ''__proto__'', ''__defineGetter__'',
      ''__defineSetter__'', ''__lookupGetter__'', ''__lookupSetter__'']"

definition lang3 :: lang where
  "lang3 =
     \<lparr>toNum = (\<lambda>s. None), protoNames = objectPrototype, protoText = (\<lambda>n. ''function'')\<rparr>"

definition typecast3 :: "jsval \<Rightarrow> jsval" where
  "typecast3 v = (case v of JStr s \<Rightarrow> if s = ''33'' then JNum 33 else JStr s | _ \<Rightarrow> v)"

definition env3 :: env where
  "env3 =
     \<lparr>jslang = lang3,
      decodeURIComponent = Some,
      emulate = False,
      normalizePathQuery = (\<lambda>s. s),
      urlPathQuery = ''a'',
      parse = (\<lambda>pq. if pq = ''a'' then Some (stateA, [], None)
                    else if pq = ''b?x=1'' then Some (stateB, [], Some [(''x'', JNum 1)])
                    else if pq = ''c'' then Some (stateC, [], None)
                    else None),
      interpolate = (\<lambda>s cp. Inr (fullPath s)),
      typecast = typecast3\<rparr>"

definition router3 :: router where
  "router3 = Router leaves3"

text \<open>
  Three states with a path parameter, and an environment whose decoder agrees with
  \<^verbatim>\<open>decodeURIComponent\<close> on the escape \<open>%41\<close> and on the malformed escape \<open>%\<close>.
\<close>

definition stateItem :: state where
  "stateItem = State 4 ''item'' ''items/{id}'' [''filter''] []"

definition stateSearch :: state where
  "stateSearch = State 5 ''search'' ''search/{query}'' [''page''] []"

definition stateUser :: state where
  "stateUser = State 7 ''user'' ''users/{constructor}'' [] []"

definition envDec :: env where
  "envDec =
     env3\<lparr>decodeURIComponent :=
            (\<lambda>s. if s = ''%41'' then Some ''A'' else if s = ''%'' then None else Some s)\<rparr>"

text \<open>
  Router states of a session on the small router: the first transition in flight; the
  router settled in \<open>a\<close>; a transition from \<open>a\<close> to \<open>b\<close> in flight; the same
  with a \<open>notFound\<close> state configured; the router settled in \<open>a\<close> after a pop, with
  the \<open>notFound\<close> state configured.
\<close>

definition stateN :: state where "stateN = State 6 ''notFound'' ''notFound'' [] []"

definition pendingFirst :: router where
  "pendingFirst = run env3 router3 [Init leaves3 (Some ''a'') None]"

definition settledA :: router where
  "settledA = run env3 router3 [Init leaves3 (Some ''a'') None, Resolve]"

definition pendingAB :: router where
  "pendingAB =
     run env3 router3 [Init leaves3 (Some ''a'') None, Resolve, Navigate ''b?x=1'' None]"


definition poppedA :: router where
  "poppedA =
     run env3 router3
       [Configure (Some stateN), Init leaves3 (Some ''a'') None, Resolve,
        Navigate ''c'' None, Resolve, PopState (Some ''a''), Resolve]"

section \<open>The target a request is compared with\<close>

text \<open>
  In the words of the specification: the target of the in-flight transition if there is
  one, or else the current settled state, each with its parameter mapping.
\<close>

definition request_target :: "router \<Rightarrow> state option \<times> params option" where
  "request_target st =
     (case transition st of
        Some t \<Rightarrow> (tr_to t, tr_toParams t)
      | None \<Rightarrow>
         (case currentState st of
            Some cs \<Rightarrow> (sw_state cs, sw_params cs)
          | None \<Rightarrow> (None, None)))"

section \<open>Properties of the parameter diff\<close>

text \<open>The three examples of the specification.\<close>

lemma paramDiff_examples:
  "diff_names lang3 [(''a'', JNum 1), (''b'', JNum 2)] [(''a'', JNum 1), (''b'', JNum 3)] = {''b''}"
  "diff_names lang3 [] [(''a'', JNum 1)] = {''a''}"
  "diff_names lang3 [(''a'', JNum 1)] [(''a'', JNum 1)] = {}"
  by (simp_all add: diff_names_def paramDiff_def get_prop_def mark_def lang3_def
      objectPrototype_def)

text \<open>
  Claim C4: the diff contains a name exactly when the name appears in exactly one of the
  two mappings, or in both with different values. The code departs from it. The name
  \<open>a\<close> appears in the new mapping \<^verbatim>\<open>{a: null}\<close> and not in the old mapping \<^verbatim>\<open>{}\<close>, and
  the diff is empty: the absent value reads as \<open>undefined\<close>, which \<^verbatim>\<open>!=\<close> does not tell
  from \<open>null\<close>. The comment above \<^verbatim>\<open>paramDiff\<close> gives its result as the parameters
  that were added, removed or changed.
\<close>

theorem paramDiff_null_added:
  "''a'' \<in> fst ` set [(''a'', JNull)] \<and> ''a'' \<notin> fst ` set ([] :: params)
   \<and> paramDiff lang3 (Some []) (Some [(''a'', JNull)]) = Inr []
   \<and> diff_names lang3 [] [(''a'', JNull)] = {}"
  by (simp add: diff_names_def paramDiff_def get_prop_def lang3_def objectPrototype_def)

section \<open>Properties of a single request\<close>

lemma isSameState_paramDiff:
  assumes "isSameState env st state params = Inr same"
  shows "\<exists>d. paramDiff (jslang env)
            (case transition st of
               Some t \<Rightarrow> tr_toParams t
             | None \<Rightarrow> (case currentState st of Some cs \<Rightarrow> sw_params cs | None \<Rightarrow> None))
            params = Inr d"
  using assms
  by (auto simp: isSameState_def split: option.splits sum.splits)

lemma setState_supersedes:
  assumes tr: "transition st = Some t"
    and d: "paramDiff (jslang env) (tr_toParams t) params = Inr d"
    and go: "rl \<or> isSameState env st state params = Inr False"
  shows "setState env st state params rl =
     Ok ((let st1 = cancelTransition st t;
              fromState = Some (StateWithParams (tr_currentState t) (tr_toParams t));
              toState = (StateWithParams state params)\<lparr>sw_pathQuery := currentPathQuery st\<rparr>;
              st2 = st1\<lparr>currentState := Some toState\<rparr>;
              st3 = (if poppedState st then replaceState env st2 None else st2)
          in (startingTransition st3 fromState toState)
               \<lparr>transition := Some (Transition fromState toState d rl)\<rparr>))"
  using assms
  by (auto simp: setState_def Let_def cancelTransition_def dispatch_cancelled_def
      transitionEnded_def StateWithParams_def)

lemma setState_idle:
  assumes tr: "transition st = None"
    and d: "paramDiff (jslang env)
              (case currentState st of Some cs \<Rightarrow> sw_params cs | None \<Rightarrow> None) params = Inr d"
    and go: "rl \<or> isSameState env st state params = Inr False"
    and pop: "poppedState st \<longrightarrow> currentState st \<noteq> None"
  shows "setState env st state params rl =
     Ok ((let fromState = currentState st;
              toState = (StateWithParams state params)\<lparr>sw_pathQuery := currentPathQuery st\<rparr>;
              st2 = st\<lparr>currentState := Some toState\<rparr>;
              st3 = (if poppedState st
                     then replaceState env st2 (sw_pathQuery (the fromState)) else st2)
          in (startingTransition st3 fromState toState)
               \<lparr>transition := Some (Transition fromState toState d rl)\<rparr>))"
  using assms
  by (auto simp: setState_def Let_def split: option.splits)

lemma pendingAB_transition: "transition pendingAB = Some (the (transition pendingAB))"
  by code_simp

lemma pendingFirst_transition: "transition pendingFirst = Some (the (transition pendingFirst))"
  by code_simp

text \<open>
  Claim C2. A request whose state is the state of the target it is compared with, whose
  parameter diff against that target's parameters is empty, and which does not ask for a
  reload, leaves every variable of the router as it is: no transition is created,
  nothing is dispatched, and the history is not called.
\<close>

theorem same_state_ignored:
  assumes "\<not> rl"
    and "request_target st = (state, tparams)"
    and "paramDiff (jslang env) tparams params = Inr []"
  shows "setState env st state params rl = Ok st"
  using assms
  by (auto simp: setState_def isSameState_def request_target_def
      split: option.splits prod.splits)

theorem same_state_ignored_witness:
  "request_target pendingAB = (Some stateB, Some [(''x'', JNum 1)])
   \<and> paramDiff (jslang env3) (Some [(''x'', JNum 1)]) (Some [(''x'', JNum 1)]) = Inr []
   \<and> setState env3 pendingAB (Some stateB) (Some [(''x'', JNum 1)]) False = Ok pendingAB"
proof -
  have t: "request_target pendingAB = (Some stateB, Some [(''x'', JNum 1)])"
    by code_simp
  have d: "paramDiff (jslang env3) (Some [(''x'', JNum 1)]) (Some [(''x'', JNum 1)]) = Inr []"
    by code_simp
  from same_state_ignored [OF _ t d, of False] show ?thesis using t d by simp
qed

text \<open>
  Claim C3, as the code has it. When the transition that a request started fails, the
  current state is set to the source of that transition: the current state as it was
  before the request when no transition was in flight then, and otherwise the fresh
  pairing of the state the superseded transition had reached with its target parameters.
  No history entry is pushed by the request or by the failure.
\<close>

theorem failure_rolls_back:
  assumes start: "setState env st0 state params rl = Ok st"
    and go: "rl \<or> isSameState env st0 state params = Inr False"
  shows "currentState (the_router (reject st err)) =
           (case transition st0 of
              None \<Rightarrow> currentState st0
            | Some t0 \<Rightarrow> Some (StateWithParams (tr_currentState t0) (tr_toParams t0)))
       \<and> filter is_push (history (the_router (reject st err))) = filter is_push (history st0)
       \<and> transition (the_router (reject st err)) = None"
  using assms
  by (auto simp: setState_def Let_def reject_def fail_def the_router_def Transition_def
      dispatch_failed_def transitionEnded_def startingTransition_def replaceState_def
      cancelTransition_def dispatch_cancelled_def
      split: option.splits sum.splits if_splits error.splits)

theorem failure_rolls_back_witness:
  "isSameState env3 settledA (Some stateB) (Some [(''x'', JNum 1)]) = Inr False
   \<and> currentState (the_router (reject
        (the_router (setState env3 settledA (Some stateB) (Some [(''x'', JNum 1)]) False))
        (TransitionError ''hook''))) = currentState settledA"
proof -
  have go: "isSameState env3 settledA (Some stateB) (Some [(''x'', JNum 1)]) = Inr False"
    by code_simp
  have idle: "transition settledA = None"
    by code_simp
  have "case setState env3 settledA (Some stateB) (Some [(''x'', JNum 1)]) False of
          Ok st \<Rightarrow> True | Threw e st \<Rightarrow> False"
    by code_simp
  then obtain st where
    st: "setState env3 settledA (Some stateB) (Some [(''x'', JNum 1)]) False = Ok st"
    by (cases "setState env3 settledA (Some stateB) (Some [(''x'', JNum 1)]) False") auto
  from failure_rolls_back [OF st disjI2 [OF go], of "TransitionError ''hook''"] idle
  show ?thesis using go st by (simp add: the_router_def)
qed

text \<open>
  The claim as the specification words it fails: a transition to \<open>c\<close> that superseded
  the transition from \<open>a\<close> to \<open>b\<close> fails, and the current state is neither what it was
  before the request (the optimistic \<open>b\<close> with its location) nor the last settled one:
  it is a fresh pairing of \<open>b\<close> with the parameters of the superseded transition, which
  carries no location.
\<close>

theorem failure_rolls_back_counterexample:
  "currentState (the_router (reject
      (the_router (perform env3 pendingAB (Navigate ''c'' None))) (TransitionError ''hook'')))
     \<noteq> currentState pendingAB
   \<and> currentState (the_router (reject
      (the_router (perform env3 pendingAB (Navigate ''c'' None))) (TransitionError ''hook'')))
     \<noteq> currentState settledA
   \<and> currentState (the_router (reject
      (the_router (perform env3 pendingAB (Navigate ''c'' None))) (TransitionError ''hook'')))
     = Some \<lparr>sw_state = Some stateB, sw_params = Some [(''x'', JNum 1)], sw_pathQuery = None\<rparr>
   \<and> currentState pendingAB
     = Some \<lparr>sw_state = Some stateB, sw_params = Some [(''x'', JNum 1)],
             sw_pathQuery = Some ''b?x=1''\<rparr>"
  by code_simp

section \<open>The history entry of a successful transition\<close>

lemma setState_creates:
  assumes "setState env st0 state params rl = Ok st"
    and "rl \<or> isSameState env st0 state params = Inr False"
  shows "\<exists>t. transition st = Some t \<and> \<not> tr_cancelled t \<and> tr_reload t = rl"
  using assms
  by (auto simp: setState_def Let_def Transition_def
      split: option.splits sum.splits if_splits prod.splits)

text \<open>
  What the success callback does to the history. A history entry is pushed exactly when,
  at that moment, the router's pop flag is unset, the first-transition flag has been
  cleared and the transition was not requested as a reload; the entry carries the
  router's current literal location. The flag is cleared by \<^verbatim>\<open>transitionCompleted\<close> and
  by \<^verbatim>\<open>cancelTransition\<close>, and by nothing else.
\<close>

lemma success_history:
  assumes tr: "transition st = Some t" and nc: "\<not> tr_cancelled t"
  shows "history (the_router (resolve env st)) =
           history st
           @ (if \<not> poppedState st \<and> \<not> firstTransition st \<and> \<not> tr_reload t
              then [PushState (currentPathQuery st)] else [])
           @ (if poppedState st
              then (case currentState st of
                      None \<Rightarrow> []
                    | Some cs \<Rightarrow> [ReplaceState (sw_pathQuery cs)])
              else [])"
  using tr nc
  by (auto simp: resolve_def success_def the_router_def Let_def pushState_def
      replaceState_def transitionCompleted_def dispatch_completed_def transitionEnded_def
      split: option.splits)

lemma success_pushes_pendingAB:
  "history pendingAB = []
   \<and> history (the_router (resolve env3 pendingAB)) = [PushState (Some ''b?x=1'')]"
  by code_simp

lemma fail_keeps_first:
  assumes "transition st = Some t" and "\<not> tr_cancelled t"
  shows "firstTransition (the_router (reject st err)) = firstTransition st"
  using assms
  by (auto simp: reject_def fail_def the_router_def Let_def dispatch_failed_def
      transitionEnded_def split: error.splits)

text \<open>
  Claim C6: a successful transition pushes a history entry with the new location exactly
  when its request is programmatic, it is not the first transition of the session and it
  is not a reload. The code departs from it. In the session below the first transition
  fails; the second one, requested by \<^verbatim>\<open>state('b?x=1')\<close> and not a reload,
  completes, and nothing is pushed: the failure callback leaves the first-transition
  flag set, which completion and cancellation clear.
\<close>

theorem failed_first_no_push:
  "history (run env3 router3
      [Init leaves3 (Some ''a'') None, Reject (TransitionError ''hook''),
       Navigate ''b?x=1'' None, Resolve]) = []
   \<and> filter is_completed (events (run env3 router3
      [Init leaves3 (Some ''a'') None, Reject (TransitionError ''hook''),
       Navigate ''b?x=1'' None, Resolve]))
     = [Completed
          (ASwp (Some \<lparr>sw_state = Some stateB, sw_params = Some [(''x'', JNum 1)],
                        sw_pathQuery = Some ''b?x=1''\<rparr>))
          (ASwp None)]
   \<and> firstTransition (run env3 router3
      [Init leaves3 (Some ''a'') None, Reject (TransitionError ''hook''),
       Navigate ''b?x=1'' None])
   \<and> \<not> poppedState (run env3 router3
      [Init leaves3 (Some ''a'') None, Reject (TransitionError ''hook''),
       Navigate ''b?x=1'' None])"
  by code_simp

text \<open>
  Claim C9. A request that supersedes the transition in flight while the
  first-transition flag is still set clears the flag; when the new transition then
  succeeds, a programmatic request that is not a reload has its location pushed, whether
  or not any transition had completed before.
\<close>

theorem cancel_clears_first:
  assumes first: "firstTransition st"
    and tr: "transition st = Some t"
    and same: "isSameState env st (Some s) params = Inr False"
    and prog: "\<not> poppedState st"
  shows "\<exists>st1 t1. setState env st (Some s) params False = Ok st1
      \<and> transition st1 = Some t1 \<and> \<not> tr_cancelled t1
      \<and> \<not> firstTransition st1
      \<and> history (the_router (resolve env st1)) = history st @ [PushState (currentPathQuery st)]"
proof -
  from isSameState_paramDiff [OF same] tr
  obtain d where d: "paramDiff (jslang env) (tr_toParams t) params = Inr d" by auto
  from same have go': "False \<or> isSameState env st (Some s) params = Inr False" by auto
  show ?thesis
    unfolding setState_supersedes [OF tr d go']
    using prog
    by (simp add: Let_def Transition_def StateWithParams_def startingTransition_def
        cancelTransition_def dispatch_cancelled_def transitionEnded_def replaceState_def
        resolve_def success_def the_router_def pushState_def
        transitionCompleted_def dispatch_completed_def)
qed

theorem cancel_clears_first_witness:
  "firstTransition (pendingFirst\<lparr>currentPathQuery := Some ''c''\<rparr>)
   \<and> filter is_completed (events (pendingFirst\<lparr>currentPathQuery := Some ''c''\<rparr>)) = []
   \<and> isSameState env3 (pendingFirst\<lparr>currentPathQuery := Some ''c''\<rparr>) (Some stateC) (Some [])
       = Inr False
   \<and> \<not> poppedState (pendingFirst\<lparr>currentPathQuery := Some ''c''\<rparr>)
   \<and> history (the_router (resolve env3
        (the_router (setState env3 (pendingFirst\<lparr>currentPathQuery := Some ''c''\<rparr>)
           (Some stateC) (Some []) False))))
       = [PushState (Some ''c'')]"
proof -
  let ?st = "pendingFirst\<lparr>currentPathQuery := Some ''c''\<rparr>"
  have first: "firstTransition ?st" by code_simp
  have none: "filter is_completed (events ?st) = []" by code_simp
  have same: "isSameState env3 ?st (Some stateC) (Some []) = Inr False" by code_simp
  have prog: "\<not> poppedState ?st" by code_simp
  have h: "history ?st = []" by code_simp
  have tr: "transition ?st = Some (the (transition pendingFirst))"
    using pendingFirst_transition by simp
  from cancel_clears_first [OF first tr same prog]
  obtain st1 where "setState env3 ?st (Some stateC) (Some []) False = Ok st1"
    and "history (the_router (resolve env3 st1))
           = history ?st @ [PushState (currentPathQuery ?st)]"
    by auto
  then show ?thesis using first none same prog h by (simp add: the_router_def)
qed

section \<open>Adding states and going back\<close>

lemma init_sets_latch: "init env leaves st initState initParams = Ok st' \<Longrightarrow> initialized st'"
  by (auto simp: init_def Let_def split: result.splits)

text \<open>
  Claim C8. \<^verbatim>\<open>addState(name, state)\<close> throws an Error whenever the latch
  \<open>initialized\<close> is set, and whenever a state is registered under the name; the
  registered states, like every other variable of the router, are as before.
\<close>

theorem addState_fails:
  assumes "initialized st \<or> states st name \<noteq> None"
  shows "addState env st name s =
           Threw (Error (if initialized st
                         then ''States can only be added before the Router is initialized''
                         else ''A state already exist in the router with the name '' @ name)) st
       \<and> states (the_router (addState env st name s)) = states st"
  using assms by (auto simp: addState_def the_router_def)

theorem addState_fails_witness:
  "initialized settledA
   \<and> addState env3 settledA ''d'' stateC =
       Threw (Error ''States can only be added before the Router is initialized'') settledA
   \<and> \<not> initialized router3 \<and> states router3 ''a'' \<noteq> None
   \<and> addState env3 router3 ''a'' stateC =
       Threw (Error ''A state already exist in the router with the name a'') router3"
proof -
  have i: "initialized settledA" by code_simp
  have n: "\<not> initialized router3" by (simp add: router3_def Router_def)
  have r: "states router3 ''a'' \<noteq> None" by (simp add: router3_def Router_def leaves3_def)
  from addState_fails [OF disjI1 [OF i], of env3 "''d''" stateC]
    addState_fails [OF disjI2 [OF r], of env3 stateC]
  show ?thesis using i n r by simp
qed

text \<open>
  Claim C10, as the code has it. For a name that the index of the leaf states does not
  hold and that is not a name of \<^verbatim>\<open>Object.prototype\<close>, \<^verbatim>\<open>backTo\<close> throws a type error and
  leaves every variable of the router as it was: no request is made. \<^verbatim>\<open>state\<close> and
  \<^verbatim>\<open>redirect\<close> take the same argument for a literal location, and hand it to
  \<^verbatim>\<open>notFound\<close> when no route matches it.
\<close>

theorem backTo_unregistered:
  assumes "leafStates st = Some leaves" and "leaves name = None"
    and "name \<notin> set (protoNames (jslang env))"
  shows "backTo env st name defaultParams = Threw TypeError st
       \<and> state_op env st name params
           = setStateForPathQuery env (st\<lparr>poppedState := False\<rparr>) name
       \<and> redirect env st name params = state_op env st name params
       \<and> (parse env (normalizePathQuery env name) = None \<longrightarrow>
            state_op env st name params
              = notFound env
                  (st\<lparr>poppedState := False,
                      currentPathQuery := Some (normalizePathQuery env name),
                      stateFound := False\<rparr>)
                  (normalizePathQuery env name))"
  using assms
  by (simp add: backTo_def state_op_def redirect_def setStateForPathQuery_def Let_def)

theorem backTo_unregistered_witness:
  "leafStates poppedA \<noteq> None
   \<and> the (leafStates poppedA) ''nowhere'' = None
   \<and> ''nowhere'' \<notin> set (protoNames (jslang env3))
   \<and> parse env3 (normalizePathQuery env3 ''nowhere'') = None
   \<and> poppedState poppedA
   \<and> poppedState (the_router (backTo env3 poppedA ''nowhere'' None))
   \<and> events (the_router (backTo env3 poppedA ''nowhere'' None)) = events poppedA
   \<and> tr_to (the (transition (the_router (state_op env3 poppedA ''nowhere'' None))))
       = Some stateN"
proof -
  have "case leafStates poppedA of None \<Rightarrow> False | Some leaves \<Rightarrow> leaves ''nowhere'' = None"
    by code_simp
  then obtain leaves where l: "leafStates poppedA = Some leaves"
    and n: "leaves ''nowhere'' = None"
    by (cases "leafStates poppedA") auto
  have o: "''nowhere'' \<notin> set (protoNames (jslang env3))"
    by (simp add: env3_def lang3_def objectPrototype_def)
  have p: "parse env3 (normalizePathQuery env3 ''nowhere'') = None" by (simp add: env3_def)
  have q: "poppedState poppedA" by code_simp
  have t: "tr_to (the (transition (the_router
             (notFound env3
                (poppedA\<lparr>poppedState := False,
                         currentPathQuery := Some (normalizePathQuery env3 ''nowhere''),
                         stateFound := False\<rparr>)
                (normalizePathQuery env3 ''nowhere''))))) = Some stateN"
    by code_simp
  from backTo_unregistered [OF l n o, of None None] p
  have b: "backTo env3 poppedA ''nowhere'' None = Threw TypeError poppedA"
    and s: "state_op env3 poppedA ''nowhere'' None
              = notFound env3
                  (poppedA\<lparr>poppedState := False,
                           currentPathQuery := Some (normalizePathQuery env3 ''nowhere''),
                           stateFound := False\<rparr>)
                  (normalizePathQuery env3 ''nowhere'')"
    by blast+
  from t have t': "tr_to (the (transition (the_router (state_op env3 poppedA ''nowhere'' None))))
                     = Some stateN"
    by (simp only: s)
  from b q have "poppedState (the_router (backTo env3 poppedA ''nowhere'' None))"
    and "events (the_router (backTo env3 poppedA ''nowhere'' None)) = events poppedA"
    by (simp_all add: the_router_def)
  with l n o p q t' show ?thesis by simp
qed

text \<open>
  The claim as it is worded fails at the names of \<^verbatim>\<open>Object.prototype\<close>, which the index
  of the leaf states inherits. No leaf state is registered as \<open>constructor\<close>; the
  lookup of \<^verbatim>\<open>backTo\<close> finds the inherited object and \<^verbatim>\<open>state()\<close> is called, which
  clears the pop flag, before the type error of \<^verbatim>\<open>setStateByName\<close>. And \<^verbatim>\<open>state()\<close>
  takes the name for a state name: it throws the same type error and the configured
  \<open>notFound\<close> state is not requested.
\<close>

theorem backTo_inherited_counterexample:
  "leafStates poppedA \<noteq> None
   \<and> the (leafStates poppedA) ''constructor'' = None
   \<and> ''constructor'' \<in> set (protoNames (jslang env3))
   \<and> poppedState poppedA
   \<and> \<not> poppedState (the_router (backTo env3 poppedA ''constructor'' None))
   \<and> backTo env3 poppedA ''constructor'' None \<noteq> Threw TypeError poppedA
   \<and> notFoundState poppedA = Some stateN
   \<and> transition (the_router (state_op env3 poppedA ''constructor'' None)) = None
   \<and> events (the_router (state_op env3 poppedA ''constructor'' None)) = events poppedA
   \<and> currentPathQuery (the_router (state_op env3 poppedA ''constructor'' None))
       = currentPathQuery poppedA"
proof -
  have "case leafStates poppedA of
          None \<Rightarrow> False | Some leaves \<Rightarrow> leaves ''constructor'' = None"
    by code_simp
  then have a: "leafStates poppedA \<noteq> None"
    and b: "the (leafStates poppedA) ''constructor'' = None"
    by (cases "leafStates poppedA"; simp)+
  have c: "poppedState poppedA" by code_simp
  have d: "\<not> poppedState (the_router (backTo env3 poppedA ''constructor'' None))"
    by code_simp
  have e: "backTo env3 poppedA ''constructor'' None \<noteq> Threw TypeError poppedA"
  proof
    assume "backTo env3 poppedA ''constructor'' None = Threw TypeError poppedA"
    then have "poppedState (the_router (backTo env3 poppedA ''constructor'' None))"
      using c by (simp add: the_router_def)
    with d show False by simp
  qed
  have f: "notFoundState poppedA = Some stateN" by code_simp
  have g: "transition (the_router (state_op env3 poppedA ''constructor'' None)) = None"
    by code_simp
  have h: "events (the_router (state_op env3 poppedA ''constructor'' None)) = events poppedA"
    by code_simp
  have i: "currentPathQuery (the_router (state_op env3 poppedA ''constructor'' None))
             = currentPathQuery poppedA"
    by code_simp
  have j: "''constructor'' \<in> set (protoNames (jslang env3))"
    by (simp add: env3_def lang3_def objectPrototype_def)
  from a b c d e f g h i j show ?thesis by simp
qed

section \<open>The invariant of the router and the order of its dispatches\<close>

lemma lifecycle_snoc: "lifecycle (es @ fs) = foldl lifecycle_step (lifecycle es) fs"
  by (simp add: lifecycle_def)

lemma state_arg_ASwp:
  "state_arg (ASwp w) = AState (case w of None \<Rightarrow> None | Some f \<Rightarrow> sw_state f)"
  by (cases w) simp_all

lemma router_inv_cong:
  assumes "transition st' = transition st" "currentState st' = currentState st"
    "events st' = events st" "initializedOnce st' = initializedOnce st"
  shows "router_inv st' = router_inv st"
  using assms by (simp add: router_inv_def split: option.splits)

lemma router_inv_upd [simp]:
  "router_inv (st\<lparr>stateFound := a\<rparr>) = router_inv st"
  "router_inv (st\<lparr>currentPathQuery := b\<rparr>) = router_inv st"
  "router_inv (st\<lparr>poppedState := c\<rparr>) = router_inv st"
  "router_inv (st\<lparr>leafStates := d\<rparr>) = router_inv st"
  "router_inv (st\<lparr>initialized := e\<rparr>) = router_inv st"
  "router_inv (st\<lparr>ignoreNextPopState := f\<rparr>) = router_inv st"
  "router_inv (st\<lparr>notFoundState := g\<rparr>) = router_inv st"
  "router_inv (st\<lparr>states := h\<rparr>) = router_inv st"
  by (rule router_inv_cong; simp)+

lemma paramDiff_refl: "\<exists>d. paramDiff lg p p = Inr d"
  by (cases p) (auto simp: paramDiff_def)

lemma inv_Router: "router_inv (Router ds)"
  by (simp add: router_inv_def Router_def lifecycle_def pairs_state_def)

lemma inv_held:
  assumes "router_inv st" and "transition st = Some t"
  shows "\<not> tr_cancelled t" "currentState st = Some (tr_toState t)"
    "tr_to t = sw_state (tr_toState t)" "tr_toParams t = sw_params (tr_toState t)"
    "tr_currentState t = tr_to t" "sw_state (tr_toState t) \<noteq> None"
    "pairs_state (tr_fromState t)"
    "tr_from t = (case tr_fromState t of None \<Rightarrow> None | Some f \<Rightarrow> sw_state f)"
    "lifecycle (events st)
       = Some (Pending (ASwp (Some (tr_toState t))) (ASwp (tr_fromState t)),
               \<not> initializedOnce st)"
  using assms by (auto simp: router_inv_def pairs_state_def)

lemma inv_idle:
  assumes "router_inv st" and "transition st = None"
  shows "pairs_state (currentState st)"
    "lifecycle (events st) = Some (Idle, \<not> initializedOnce st)"
  using assms by (auto simp: router_inv_def)

lemma inv_setState:
  assumes inv: "router_inv st"
    and rel: "rl \<longrightarrow> (\<exists>d. paramDiff (jslang env) (case transition st of
               Some t \<Rightarrow> tr_toParams t
             | None \<Rightarrow> (case currentState st of Some cs \<Rightarrow> sw_params cs | None \<Rightarrow> None))
            params = Inr d)"
  shows "router_inv (the_router (setState env st (Some s) params rl))"
proof (cases "if rl then Inr False else isSameState env st (Some s) params")
  case (Inl e)
  then show ?thesis using inv by (simp add: setState_def the_router_def)
next
  case (Inr same)
  show ?thesis
  proof (cases same)
    case True
    then show ?thesis using inv Inr by (simp add: setState_def the_router_def)
  next
    case False
    with Inr have go: "rl \<or> isSameState env st (Some s) params = Inr False"
      by (auto split: if_splits)
    have "\<exists>d. paramDiff (jslang env) (case transition st of
               Some t \<Rightarrow> tr_toParams t
             | None \<Rightarrow> (case currentState st of Some cs \<Rightarrow> sw_params cs | None \<Rightarrow> None))
            params = Inr d"
    proof (cases rl)
      case True
      then show ?thesis using rel by simp
    next
      case False
      with go have "isSameState env st (Some s) params = Inr False" by simp
      from isSameState_paramDiff [OF this] show ?thesis .
    qed
    then obtain d where d: "paramDiff (jslang env) (case transition st of
               Some t \<Rightarrow> tr_toParams t
             | None \<Rightarrow> (case currentState st of Some cs \<Rightarrow> sw_params cs | None \<Rightarrow> None))
            params = Inr d" by blast
    show ?thesis
    proof (cases "transition st")
      case None
      show ?thesis
      proof (cases "poppedState st \<and> currentState st = None")
        case True
        then show ?thesis using None inv Inr False
          by (simp add: setState_def Let_def the_router_def router_inv_def pairs_state_def
              StateWithParams_def)
      next
        case nt: False
        then have pop: "poppedState st \<longrightarrow> currentState st \<noteq> None" by simp
        from d None have d': "paramDiff (jslang env)
              (case currentState st of Some cs \<Rightarrow> sw_params cs | None \<Rightarrow> None) params = Inr d"
          by simp
        show ?thesis
          unfolding setState_idle [OF None d' go pop]
          using inv None
          by (simp add: the_router_def router_inv_def Let_def startingTransition_def
              replaceState_def Transition_def StateWithParams_def lifecycle_snoc
              pairs_state_def)
      qed
    next
      case (Some t)
      from d Some have d': "paramDiff (jslang env) (tr_toParams t) params = Inr d" by simp
      note h = inv_held [OF inv Some]
      show ?thesis
        unfolding setState_supersedes [OF Some d' go]
        using h
        by (simp add: the_router_def router_inv_def Let_def startingTransition_def
            replaceState_def Transition_def StateWithParams_def lifecycle_snoc
            cancelTransition_def dispatch_cancelled_def transitionEnded_def state_arg_ASwp
            pairs_state_def
            del: state_arg.simps)
    qed
  qed
qed

lemma inv_resolve: "router_inv st \<Longrightarrow> router_inv (the_router (resolve env st))"
  by (auto simp: resolve_def success_def the_router_def router_inv_def Let_def pushState_def
      replaceState_def transitionCompleted_def dispatch_completed_def transitionEnded_def
      lifecycle_snoc pairs_state_def split: option.splits)

lemma inv_reject: "router_inv st \<Longrightarrow> router_inv (the_router (reject st err))"
  by (auto simp: reject_def fail_def the_router_def router_inv_def Let_def
      dispatch_failed_def transitionEnded_def lifecycle_snoc
      split: option.splits error.splits)

lemma inv_notFound: "router_inv st \<Longrightarrow> router_inv (the_router (notFound env st name))"
proof (cases "notFoundState st")
  case None
  assume "router_inv st"
  with None show ?thesis by (simp add: notFound_def the_router_def)
next
  case (Some nf)
  assume "router_inv st"
  from inv_setState [OF this, of False env None nf] Some
  show ?thesis by (simp add: notFound_def)
qed

lemma inv_matched:
  assumes "router_inv st"
  shows "router_inv (the_router (matched env st state crossroadsArgs))"
proof -
  have i: "router_inv (st\<lparr>stateFound := True\<rparr>)"
    using assms by simp
  show ?thesis
  proof (cases "fromCrossroadsParams env state crossroadsArgs")
    case (Inl e)
    with i show ?thesis by (simp add: matched_def the_router_def)
  next
    case (Inr ps)
    from inv_setState [OF i, of False env "Some ps" state] Inr
    show ?thesis by (simp add: matched_def)
  qed
qed

lemma inv_setStateForPathQuery:
  assumes "router_inv st"
  shows "router_inv (the_router (setStateForPathQuery env st pathQuery))"
proof -
  let ?pq = "normalizePathQuery env pathQuery"
  let ?st1 = "st\<lparr>currentPathQuery := Some ?pq, stateFound := False\<rparr>"
  have i: "router_inv ?st1"
    using assms by simp
  show ?thesis
  proof (cases "parse env ?pq")
    case None
    from inv_notFound [OF i, of env ?pq] None
    show ?thesis by (simp add: setStateForPathQuery_def Let_def)
  next
    case (Some m)
    obtain state args where m: "m = (state, args)" by (cases m)
    from inv_matched [OF i, of env state args]
    have im: "router_inv (the_router (matched env ?st1 state args))" .
    show ?thesis
    proof (cases "matched env ?st1 state args")
      case (Threw e st2)
      with im Some m show ?thesis
        by (simp add: setStateForPathQuery_def Let_def the_router_def)
    next
      case (Ok st2)
      with im have i2: "router_inv st2" by (simp add: the_router_def)
      from inv_notFound [OF i2, of env ?pq] i2 Ok Some m
      show ?thesis
        by (simp add: setStateForPathQuery_def Let_def the_router_def)
    qed
  qed
qed

lemma inv_setStateByName:
  assumes "router_inv st"
  shows "router_inv (the_router (setStateByName env st name params))"
  using assms inv_notFound [OF assms, of env name]
    inv_setStateForPathQuery [OF assms, of env]
  by (auto simp: setStateByName_def the_router_def split: option.splits sum.splits)

lemma inv_state_op:
  assumes "router_inv st"
  shows "router_inv (the_router (state_op env st pathQueryOrName params))"
proof -
  have i: "router_inv (st\<lparr>poppedState := False\<rparr>)"
    using assms by simp
  show ?thesis
    using assms inv_setStateByName [OF i, of env] inv_setStateForPathQuery [OF i, of env]
    by (auto simp: state_op_def Let_def the_router_def split: option.splits)
qed

lemma inv_backTo:
  assumes "router_inv st"
  shows "router_inv (the_router (backTo env st stateName defaultParams))"
  using assms inv_state_op [OF assms, of env stateName]
  by (auto simp: backTo_def the_router_def split: option.splits)

lemma inv_reload:
  assumes inv: "router_inv st"
  shows "router_inv (the_router (reload env st))"
proof (cases "currentState st")
  case None
  with inv show ?thesis by (simp add: reload_def the_router_def)
next
  case (Some cs)
  with inv obtain s where s: "sw_state cs = Some s"
    by (auto simp: router_inv_def pairs_state_def)
  have "\<exists>d. paramDiff (jslang env) (case transition st of
               Some t \<Rightarrow> tr_toParams t
             | None \<Rightarrow> (case currentState st of Some cs \<Rightarrow> sw_params cs | None \<Rightarrow> None))
            (sw_params cs) = Inr d"
    using inv Some paramDiff_refl [of "jslang env" "sw_params cs"]
    by (auto simp: router_inv_def split: option.splits)
  from inv_setState [OF inv, of True env "sw_params cs" s] this Some s
  show ?thesis by (simp add: reload_def)
qed

lemma inv_addState:
  "router_inv st \<Longrightarrow> router_inv (the_router (addState env st name state))"
  by (auto simp: addState_def the_router_def)

lemma inv_configure: "router_inv st \<Longrightarrow> router_inv (configure st nf)"
  by (simp add: configure_def)

lemma inv_init:
  assumes "router_inv st"
  shows "router_inv (the_router (init env leaves st initState initParams))"
proof -
  have i: "router_inv (st\<lparr>leafStates := Some leaves\<rparr>)"
    using assms by simp
  let ?target = "case initState of Some s \<Rightarrow> s | None \<Rightarrow> urlPathQuery env"
  from inv_state_op [OF i, of env ?target initParams]
  show ?thesis
    by (cases "state_op env (st\<lparr>leafStates := Some leaves\<rparr>) ?target initParams")
       (simp_all add: init_def Let_def the_router_def)
qed

lemma inv_onpopstate:
  assumes "router_inv st"
  shows "router_inv (the_router (onpopstate env st evtState))"
proof -
  have i: "router_inv (st\<lparr>poppedState := True\<rparr>)"
    using assms by simp
  show ?thesis
    using assms inv_setStateForPathQuery [OF i, of env]
    by (auto simp: onpopstate_def Let_def the_router_def)
qed

lemma inv_perform:
  assumes "router_inv st"
  shows "router_inv (the_router (perform env st a))"
proof (cases a)
  case (Configure nf)
  with assms show ?thesis by (simp add: inv_configure the_router_def)
qed (use assms in \<open>simp_all add: inv_addState inv_init inv_state_op inv_backTo
       inv_onpopstate inv_resolve inv_reject inv_reload\<close>)

lemma inv_run: "router_inv st \<Longrightarrow> router_inv (run env st acts)"
  by (induction acts arbitrary: st) (simp_all add: inv_perform)

lemma inv_lifecycle_ok: "router_inv st \<Longrightarrow> lifecycle_ok (events st)"
  by (auto simp: router_inv_def lifecycle_ok_def split: option.splits)

lemma lifecycle_step_Some:
  assumes "lifecycle_step s e = Some q"
  obtains ph i where "s = Some (ph, i)"
  using assms by (cases s) auto

lemma lifecycle_counts:
  assumes "lifecycle es = Some (ph, i)"
  shows "length (filter is_initialized es) = (if i then 1 else 0)
       \<and> (case ph of
            AwaitInitialized a b \<Rightarrow> \<not> i \<and> filter is_completed es \<noteq> []
          | _ \<Rightarrow> i = (filter is_completed es \<noteq> []))"
  using assms
proof (induction es arbitrary: ph i rule: rev_induct)
  case Nil
  then show ?case by (auto simp: lifecycle_def)
next
  case (snoc e es)
  from snoc.prems have step: "lifecycle_step (lifecycle es) e = Some (ph, i)"
    by (simp add: lifecycle_snoc)
  then obtain ph0 i0 where l0: "lifecycle es = Some (ph0, i0)"
    by (rule lifecycle_step_Some)
  note ih = snoc.IH [OF l0]
  from step l0 ih show ?case
    by (cases ph0; cases e) (auto split: if_splits)
qed

lemma lifecycle_Pending_last:
  assumes "lifecycle es = Some (Pending a b, i)"
  shows "es \<noteq> [] \<and> last es = Started a b"
proof (cases es rule: rev_cases)
  case Nil
  with assms show ?thesis by (simp add: lifecycle_def)
next
  case (snoc es' e)
  with assms have step: "lifecycle_step (lifecycle es') e = Some (Pending a b, i)"
    by (simp add: lifecycle_snoc)
  then obtain ph0 i0 where l0: "lifecycle es' = Some (ph0, i0)"
    by (rule lifecycle_step_Some)
  from step l0 have "e = Started a b"
    by (cases ph0; cases e) (auto split: if_splits)
  with snoc show ?thesis by simp
qed

lemma inv_latch:
  assumes "router_inv st"
  shows "initializedOnce st = (filter is_completed (events st) = [])"
proof (cases "transition st")
  case None
  from lifecycle_counts [OF inv_idle(2) [OF assms None]] show ?thesis by auto
next
  case (Some t)
  from lifecycle_counts [OF inv_held(9) [OF assms Some]] show ?thesis by auto
qed

lemma events_resolve:
  assumes inv: "router_inv st" and tr: "transition st = Some t"
  shows "events (the_router (resolve env st)) =
           events st
           @ [Completed (ASwp (Some (tr_toState t))) (ASwp (tr_fromState t))]
           @ (if filter is_completed (events st) = [] then [Initialized] else [])
           @ [Ended (ASwp (Some (tr_toState t))) (ASwp (tr_fromState t))]"
proof -
  note h = inv_held [OF inv tr]
  from h(6) obtain s where s: "sw_state (tr_toState t) = Some s" by auto
  have "events (the_router (resolve env st)) =
           events st
           @ [Completed (ASwp (Some (tr_toState t))) (ASwp (tr_fromState t))]
           @ (if initializedOnce st then [Initialized] else [])
           @ [Ended (ASwp (Some (tr_toState t))) (ASwp (tr_fromState t))]"
    using tr h(1) h(2) s
    by (simp add: resolve_def success_def the_router_def Let_def pushState_def
        replaceState_def transitionCompleted_def dispatch_completed_def transitionEnded_def)
  then show ?thesis by (simp add: inv_latch [OF inv])
qed

lemma events_reject:
  assumes inv: "router_inv st" and tr: "transition st = Some t"
  shows "events (the_router (reject st err)) =
           events st
           @ [Failed (ASwp (Some (tr_toState t))) (ASwp (tr_fromState t)),
              Ended (ASwp (Some (tr_toState t))) (ASwp (tr_fromState t))]"
  using tr inv_held(1) [OF inv tr]
  by (simp add: reject_def fail_def the_router_def Let_def dispatch_failed_def
      transitionEnded_def split: error.splits)

lemma events_settle_idle:
  assumes "transition st = None"
  shows "events (the_router (resolve env st)) = events st"
    "events (the_router (reject st err)) = events st"
  using assms by (simp_all add: resolve_def reject_def the_router_def)

lemma requested_refl: "requested st st"
  by (simp add: requested_def)

lemma requested_left:
  assumes "events st1 = events st" "transition st1 = transition st"
    "currentState st1 = currentState st"
  shows "requested st1 st' = requested st st'"
  using assms by (simp add: requested_def cancel_events_def next_source_def split: option.splits)

lemma requested_right:
  assumes "events st2 = events st'" "currentState st2 = currentState st'"
  shows "requested st st2 = requested st st'"
  using assms by (simp add: requested_def)

lemma requested_upd [simp]:
  "requested (st\<lparr>stateFound := a\<rparr>) st' = requested st st'"
  "requested (st\<lparr>currentPathQuery := b\<rparr>) st' = requested st st'"
  "requested (st\<lparr>poppedState := c\<rparr>) st' = requested st st'"
  "requested (st\<lparr>leafStates := d\<rparr>) st' = requested st st'"
  "requested st (st'\<lparr>initialized := e\<rparr>) = requested st st'"
  by (rule requested_left requested_right; simp)+

lemma requested_setState: "requested st (the_router (setState env st state params rl))"
proof (cases "if rl then Inr False else isSameState env st state params")
  case (Inl e)
  then show ?thesis by (simp add: setState_def the_router_def requested_def)
next
  case (Inr same)
  show ?thesis
  proof (cases same)
    case True
    with Inr show ?thesis by (simp add: setState_def the_router_def requested_def)
  next
    case False
    show ?thesis
    proof (cases "transition st")
      case None
      with Inr False show ?thesis
        by (auto simp: setState_def requested_def cancel_events_def next_source_def Let_def
            the_router_def startingTransition_def replaceState_def
            split: sum.splits option.splits)
    next
      case (Some t)
      with Inr False show ?thesis
        by (auto simp: setState_def requested_def cancel_events_def next_source_def Let_def
            the_router_def startingTransition_def replaceState_def cancelTransition_def
            dispatch_cancelled_def transitionEnded_def
            split: sum.splits option.splits)
    qed
  qed
qed

lemma stateFound_setState:
  "stateFound (the_router (setState env st state params rl)) = stateFound st"
proof (cases "if rl then Inr False else isSameState env st state params")
  case (Inl e)
  then show ?thesis by (simp add: setState_def the_router_def)
next
  case (Inr same)
  show ?thesis
  proof (cases same)
    case True
    with Inr show ?thesis by (simp add: setState_def the_router_def)
  next
    case False
    show ?thesis
    proof (cases "transition st")
      case None
      with Inr False show ?thesis
        by (auto simp: setState_def Let_def
            the_router_def startingTransition_def replaceState_def
            split: sum.splits option.splits)
    next
      case (Some t)
      with Inr False show ?thesis
        by (auto simp: setState_def Let_def
            the_router_def startingTransition_def replaceState_def cancelTransition_def
            dispatch_cancelled_def transitionEnded_def
            split: sum.splits option.splits)
    qed
  qed
qed

lemma the_router_simps [simp]:
  "the_router (Ok st) = st" "the_router (Threw e st) = st"
  by (simp_all add: the_router_def)

lemma requested_notFound: "requested st (the_router (notFound env st name))"
proof (cases "notFoundState st")
  case None
  then show ?thesis by (simp add: notFound_def requested_refl)
next
  case (Some nf)
  then have "notFound env st name = setState env st (Some nf) None False"
    by (simp add: notFound_def)
  then show ?thesis by (simp only: requested_setState)
qed

lemma requested_matched: "requested st (the_router (matched env st state crossroadsArgs))"
proof -
  let ?st1 = "st\<lparr>stateFound := True\<rparr>"
  have "requested ?st1 (the_router (matched env st state crossroadsArgs))"
  proof (cases "fromCrossroadsParams env state crossroadsArgs")
    case (Inl e)
    then have "matched env st state crossroadsArgs = Threw e ?st1"
      by (simp add: matched_def)
    then show ?thesis by (simp add: requested_refl)
  next
    case (Inr ps)
    then have "matched env st state crossroadsArgs
                 = setState env ?st1 (Some state) (Some ps) False"
      by (simp add: matched_def)
    then show ?thesis by (simp only: requested_setState)
  qed
  then show ?thesis by simp
qed

lemma stateFound_matched:
  assumes "matched env st state crossroadsArgs = Ok st2"
  shows "stateFound st2"
proof (cases "fromCrossroadsParams env state crossroadsArgs")
  case (Inl e)
  with assms show ?thesis by (simp add: matched_def)
next
  case (Inr ps)
  with assms have "setState env (st\<lparr>stateFound := True\<rparr>) (Some state) (Some ps) False = Ok st2"
    by (simp add: matched_def)
  with stateFound_setState [of env "st\<lparr>stateFound := True\<rparr>" "Some state" "Some ps" False]
  show ?thesis by simp
qed

lemma requested_setStateForPathQuery:
  "requested st (the_router (setStateForPathQuery env st pathQuery))"
proof -
  let ?pq = "normalizePathQuery env pathQuery"
  let ?st1 = "st\<lparr>currentPathQuery := Some ?pq, stateFound := False\<rparr>"
  have "requested ?st1 (the_router (setStateForPathQuery env st pathQuery))"
  proof (cases "parse env ?pq")
    case None
    then have "setStateForPathQuery env st pathQuery = notFound env ?st1 ?pq"
      by (simp add: setStateForPathQuery_def Let_def)
    then show ?thesis by (simp only: requested_notFound)
  next
    case (Some m)
    obtain state args where m: "m = (state, args)" by (cases m)
    show ?thesis
    proof (cases "matched env ?st1 state args")
      case (Threw e st2)
      with Some m have "setStateForPathQuery env st pathQuery = matched env ?st1 state args"
        by (simp add: setStateForPathQuery_def Let_def)
      then show ?thesis by (simp only: requested_matched)
    next
      case (Ok st2)
      from stateFound_matched [OF Ok] Ok Some m
      have "setStateForPathQuery env st pathQuery = matched env ?st1 state args"
        by (simp add: setStateForPathQuery_def Let_def)
      then show ?thesis by (simp only: requested_matched)
    qed
  qed
  then show ?thesis by simp
qed

lemma requested_setStateByName:
  "requested st (the_router (setStateByName env st name params))"
proof (cases "leafStates st")
  case None
  then show ?thesis by (simp add: setStateByName_def requested_refl)
next
  case (Some leaves)
  show ?thesis
  proof (cases "leaves name")
    case None
    with Some have "setStateByName env st name params = Threw TypeError st
                    \<or> setStateByName env st name params = notFound env st name"
      by (simp add: setStateByName_def)
    then show ?thesis
    proof
      assume "setStateByName env st name params = Threw TypeError st"
      then show ?thesis by (simp add: requested_refl)
    next
      assume "setStateByName env st name params = notFound env st name"
      then show ?thesis by (simp only: requested_notFound)
    qed
  next
    case leaf: (Some state)
    show ?thesis
    proof (cases "toCrossroadsParams env state params")
      case (Inl e)
      with Some leaf show ?thesis by (simp add: setStateByName_def requested_refl)
    next
      case (Inr cp)
      show ?thesis
      proof (cases "interpolate env state cp")
        case (Inl e)
        with Some leaf Inr show ?thesis by (simp add: setStateByName_def requested_refl)
      next
        case pq: (Inr pathQuery)
        with Some leaf Inr
        have "setStateByName env st name params = setStateForPathQuery env st pathQuery"
          by (simp add: setStateByName_def)
        then show ?thesis by (simp only: requested_setStateForPathQuery)
      qed
    qed
  qed
qed

lemma requested_state_op:
  "requested st (the_router (state_op env st pathQueryOrName params))"
proof (cases "leafStates st")
  case None
  then show ?thesis by (simp add: state_op_def requested_refl)
next
  case (Some leaves)
  let ?st1 = "st\<lparr>poppedState := False\<rparr>"
  from Some have
    "state_op env st pathQueryOrName params
       = setStateByName env ?st1 pathQueryOrName (case params of None \<Rightarrow> [] | Some p \<Rightarrow> p)
     \<or> state_op env st pathQueryOrName params
       = setStateForPathQuery env ?st1 pathQueryOrName"
    by (simp add: state_op_def Let_def)
  then have "requested ?st1 (the_router (state_op env st pathQueryOrName params))"
  proof
    assume "state_op env st pathQueryOrName params
       = setStateByName env ?st1 pathQueryOrName (case params of None \<Rightarrow> [] | Some p \<Rightarrow> p)"
    then show ?thesis by (simp only: requested_setStateByName)
  next
    assume "state_op env st pathQueryOrName params
       = setStateForPathQuery env ?st1 pathQueryOrName"
    then show ?thesis by (simp only: requested_setStateForPathQuery)
  qed
  then show ?thesis by simp
qed

lemma requested_backTo:
  "requested st (the_router (backTo env st stateName defaultParams))"
proof (cases "leafStates st")
  case None
  then show ?thesis by (simp add: backTo_def requested_refl)
next
  case (Some leaves)
  then have "backTo env st stateName defaultParams = Threw TypeError st
     \<or> (\<exists>ps. backTo env st stateName defaultParams = state_op env st stateName ps)"
    by (auto simp: backTo_def split: option.splits)
  then show ?thesis
  proof
    assume "backTo env st stateName defaultParams = Threw TypeError st"
    then show ?thesis by (simp add: requested_refl)
  next
    assume "\<exists>ps. backTo env st stateName defaultParams = state_op env st stateName ps"
    then obtain ps where "backTo env st stateName defaultParams = state_op env st stateName ps"
      by blast
    then show ?thesis by (simp only: requested_state_op)
  qed
qed

lemma requested_reload: "requested st (the_router (reload env st))"
proof (cases "currentState st")
  case None
  then show ?thesis by (simp add: reload_def requested_refl)
next
  case (Some cs)
  then have "reload env st = setState env st (sw_state cs) (sw_params cs) True"
    by (simp add: reload_def)
  then show ?thesis by (simp only: requested_setState)
qed

lemma requested_init:
  "requested st (the_router (init env leaves st initState initParams))"
proof -
  let ?st1 = "st\<lparr>leafStates := Some leaves\<rparr>"
  let ?target = "case initState of Some s \<Rightarrow> s | None \<Rightarrow> urlPathQuery env"
  have r: "requested ?st1 (the_router (state_op env ?st1 ?target initParams))"
    by (rule requested_state_op)
  have "requested ?st1 (the_router (init env leaves st initState initParams))"
  proof (cases "state_op env ?st1 ?target initParams")
    case (Ok st2)
    then have "init env leaves st initState initParams = Ok (st2\<lparr>initialized := True\<rparr>)"
      by (simp add: init_def Let_def)
    moreover from r Ok have "requested ?st1 st2" by simp
    ultimately show ?thesis by simp
  next
    case (Threw e st2)
    then have "init env leaves st initState initParams = Threw e st2"
      by (simp add: init_def Let_def)
    moreover from r Threw have "requested ?st1 st2" by simp
    ultimately show ?thesis by simp
  qed
  then show ?thesis by simp
qed

lemma requested_onpopstate: "requested st (the_router (onpopstate env st evtState))"
proof -
  let ?st1 = "st\<lparr>poppedState := True\<rparr>"
  have "onpopstate env st evtState = Ok st
     \<or> onpopstate env st evtState = Ok (st\<lparr>ignoreNextPopState := False\<rparr>)
     \<or> (\<exists>pq. onpopstate env st evtState = setStateForPathQuery env ?st1 pq)"
    by (auto simp: onpopstate_def Let_def)
  then consider "onpopstate env st evtState = Ok st"
    | "onpopstate env st evtState = Ok (st\<lparr>ignoreNextPopState := False\<rparr>)"
    | pq where "onpopstate env st evtState = setStateForPathQuery env ?st1 pq"
    by blast
  then show ?thesis
  proof cases
    case 1
    then show ?thesis by (simp add: requested_refl)
  next
    case 2
    then show ?thesis by (simp add: requested_def)
  next
    case 3
    then have "requested ?st1 (the_router (onpopstate env st evtState))"
      by (simp only: requested_setStateForPathQuery)
    then show ?thesis by simp
  qed
qed

lemma requested_perform:
  assumes "is_request a"
  shows "requested st (the_router (perform env st a))"
proof (cases a)
  case (Configure nf)
  then show ?thesis by (simp add: configure_def requested_def)
next
  case (AddState name state)
  then show ?thesis by (simp add: addState_def requested_def)
next
  case (Init leaves initState initParams)
  then show ?thesis by (simp add: requested_init)
next
  case (Navigate pathQueryOrName params)
  then show ?thesis by (simp add: requested_state_op)
next
  case (BackTo stateName defaultParams)
  then show ?thesis by (simp add: requested_backTo)
next
  case Reload
  then show ?thesis by (simp add: requested_reload)
next
  case (PopState evtState)
  then show ?thesis by (simp add: requested_onpopstate)
next
  case Resolve
  with assms show ?thesis by simp
next
  case (Reject err)
  with assms show ?thesis by simp
qed

text \<open>
  Claim C5. Let \<open>st\<close> be the router that a run of a fresh router has reached,
  whatever the run. Then:

  \<^item> the dispatches so far follow the order of the specification: each \<open>started\<close> is
    followed by exactly one of \<open>completed\<close>, \<open>failed\<close> and \<open>cancelled\<close> for the
    same navigation and then by \<open>ended\<close> with the same arguments, before the next
    \<open>started\<close>, and only the navigation in flight, if any, has not ended;
  \<^item> \<open>router.initialized\<close> has been dispatched once if a \<open>completed\<close> has been, right
    after the first one, and not at all otherwise;
  \<^item> a request dispatches nothing, or \<open>cancelled\<close> and \<open>ended\<close> for the navigation in
    flight, if any, and then \<open>started\<close> for the new one;
  \<^item> while a navigation is in flight, its \<open>started\<close> is the last dispatch; when the
    engine settles it, success dispatches \<open>completed\<close>, then \<open>router.initialized\<close>
    if no \<open>completed\<close> was dispatched before, then \<open>ended\<close>, and failure dispatches
    \<open>failed\<close> and \<open>ended\<close>, all with the arguments of \<open>started\<close>;
  \<^item> while no navigation is in flight, every navigation that started has ended, and
    the engine dispatches nothing.
\<close>

theorem lifecycle_order:
  assumes "st = run env (Router ds) acts"
  shows "lifecycle_ok (events st)
       \<and> length (filter is_initialized (events st))
           = (if filter is_completed (events st) = [] then 0 else 1)
       \<and> (is_request a \<longrightarrow>
            events (the_router (perform env st a)) = events st
            \<or> events (the_router (perform env st a)) =
                events st @ cancel_events st
                @ [Started (ASwp (currentState (the_router (perform env st a))))
                     (ASwp (next_source st))])
       \<and> (case transition st of
            Some t \<Rightarrow>
              events st \<noteq> []
              \<and> last (events st) = Started (ASwp (Some (tr_toState t))) (ASwp (tr_fromState t))
              \<and> tr_to t = sw_state (tr_toState t)
              \<and> tr_from t = (case tr_fromState t of None \<Rightarrow> None | Some f \<Rightarrow> sw_state f)
              \<and> events (the_router (perform env st Resolve)) =
                  events st
                  @ [Completed (ASwp (Some (tr_toState t))) (ASwp (tr_fromState t))]
                  @ (if filter is_completed (events st) = [] then [Initialized] else [])
                  @ [Ended (ASwp (Some (tr_toState t))) (ASwp (tr_fromState t))]
              \<and> events (the_router (perform env st (Reject err))) =
                  events st
                  @ [Failed (ASwp (Some (tr_toState t))) (ASwp (tr_fromState t)),
                     Ended (ASwp (Some (tr_toState t))) (ASwp (tr_fromState t))]
          | None \<Rightarrow>
              lifecycle (events st) = Some (Idle, filter is_completed (events st) \<noteq> [])
              \<and> events (the_router (perform env st Resolve)) = events st
              \<and> events (the_router (perform env st (Reject err))) = events st)"
proof -
  have inv: "router_inv st"
    unfolding assms by (rule inv_run [OF inv_Router])
  have ok: "lifecycle_ok (events st)"
    using inv by (rule inv_lifecycle_ok)
  then obtain ph i where l: "lifecycle (events st) = Some (ph, i)"
    and ph: "ph = Idle \<or> (\<exists>a b. ph = Pending a b)"
    by (auto simp: lifecycle_ok_def split: option.splits phase.splits)
  from lifecycle_counts [OF l] ph
  have once: "length (filter is_initialized (events st))
                = (if filter is_completed (events st) = [] then 0 else 1)"
    by auto
  have req: "is_request a \<longrightarrow>
            events (the_router (perform env st a)) = events st
            \<or> events (the_router (perform env st a)) =
                events st @ cancel_events st
                @ [Started (ASwp (currentState (the_router (perform env st a))))
                     (ASwp (next_source st))]"
    using requested_perform [of a st env] by (simp add: requested_def)
  have settle: "case transition st of
            Some t \<Rightarrow>
              events st \<noteq> []
              \<and> last (events st) = Started (ASwp (Some (tr_toState t))) (ASwp (tr_fromState t))
              \<and> tr_to t = sw_state (tr_toState t)
              \<and> tr_from t = (case tr_fromState t of None \<Rightarrow> None | Some f \<Rightarrow> sw_state f)
              \<and> events (the_router (perform env st Resolve)) =
                  events st
                  @ [Completed (ASwp (Some (tr_toState t))) (ASwp (tr_fromState t))]
                  @ (if filter is_completed (events st) = [] then [Initialized] else [])
                  @ [Ended (ASwp (Some (tr_toState t))) (ASwp (tr_fromState t))]
              \<and> events (the_router (perform env st (Reject err))) =
                  events st
                  @ [Failed (ASwp (Some (tr_toState t))) (ASwp (tr_fromState t)),
                     Ended (ASwp (Some (tr_toState t))) (ASwp (tr_fromState t))]
          | None \<Rightarrow>
              lifecycle (events st) = Some (Idle, filter is_completed (events st) \<noteq> [])
              \<and> events (the_router (perform env st Resolve)) = events st
              \<and> events (the_router (perform env st (Reject err))) = events st"
  proof (cases "transition st")
    case None
    from inv_idle(2) [OF inv None] inv_latch [OF inv] events_settle_idle [OF None] None
    show ?thesis by simp
  next
    case (Some t)
    note h = inv_held [OF inv Some]
    from lifecycle_Pending_last [OF h(9)] h(3) h(8)
      events_resolve [OF inv Some, of env] events_reject [OF inv Some, of err] Some
    show ?thesis by simp
  qed
  from ok once req settle show ?thesis by blast
qed

theorem lifecycle_order_witness:
  "pendingAB =
     run env3 (Router leaves3)
       [Init leaves3 (Some ''a'') None, Resolve, Navigate ''b?x=1'' None]
   \<and> is_request (Navigate ''c'' None)
   \<and> lifecycle_ok (events pendingAB)
   \<and> length (filter is_initialized (events pendingAB)) = 1
   \<and> last (events pendingAB) =
       Started
         (ASwp (Some \<lparr>sw_state = Some stateB, sw_params = Some [(''x'', JNum 1)],
                       sw_pathQuery = Some ''b?x=1''\<rparr>))
         (ASwp (Some \<lparr>sw_state = Some stateA, sw_params = Some [],
                       sw_pathQuery = Some ''a''\<rparr>))
   \<and> events (the_router (perform env3 pendingAB (Navigate ''c'' None))) =
       events pendingAB
       @ [Cancelled (AState (Some stateB)) (AState (Some stateA)),
          Ended (AState (Some stateB)) (AState (Some stateA)),
          Started
            (ASwp (Some \<lparr>sw_state = Some stateC, sw_params = Some [],
                          sw_pathQuery = Some ''c''\<rparr>))
            (ASwp (Some \<lparr>sw_state = Some stateB, sw_params = Some [(''x'', JNum 1)],
                          sw_pathQuery = None\<rparr>))]
   \<and> events (the_router (perform env3 pendingAB Resolve)) =
       events pendingAB
       @ [Completed
            (ASwp (Some \<lparr>sw_state = Some stateB, sw_params = Some [(''x'', JNum 1)],
                          sw_pathQuery = Some ''b?x=1''\<rparr>))
            (ASwp (Some \<lparr>sw_state = Some stateA, sw_params = Some [],
                          sw_pathQuery = Some ''a''\<rparr>)),
          Ended
            (ASwp (Some \<lparr>sw_state = Some stateB, sw_params = Some [(''x'', JNum 1)],
                          sw_pathQuery = Some ''b?x=1''\<rparr>))
            (ASwp (Some \<lparr>sw_state = Some stateA, sw_params = Some [],
                          sw_pathQuery = Some ''a''\<rparr>))]
   \<and> events (the_router (perform env3 pendingAB (Reject (TransitionError ''hook'')))) =
       events pendingAB
       @ [Failed
            (ASwp (Some \<lparr>sw_state = Some stateB, sw_params = Some [(''x'', JNum 1)],
                          sw_pathQuery = Some ''b?x=1''\<rparr>))
            (ASwp (Some \<lparr>sw_state = Some stateA, sw_params = Some [],
                          sw_pathQuery = Some ''a''\<rparr>)),
          Ended
            (ASwp (Some \<lparr>sw_state = Some stateB, sw_params = Some [(''x'', JNum 1)],
                          sw_pathQuery = Some ''b?x=1''\<rparr>))
            (ASwp (Some \<lparr>sw_state = Some stateA, sw_params = Some [],
                          sw_pathQuery = Some ''a''\<rparr>))]"
proof -
  let ?B = "\<lparr>sw_state = Some stateB, sw_params = Some [(''x'', JNum 1)],
             sw_pathQuery = Some ''b?x=1''\<rparr>"
  let ?A = "\<lparr>sw_state = Some stateA, sw_params = Some [], sw_pathQuery = Some ''a''\<rparr>"
  let ?st' = "the_router (perform env3 pendingAB (Navigate ''c'' None))"
  have r: "pendingAB =
     run env3 (Router leaves3)
       [Init leaves3 (Some ''a'') None, Resolve, Navigate ''b?x=1'' None]"
    by (simp add: pendingAB_def router3_def)
  have q: "is_request (Navigate ''c'' None)" by simp
  from pendingAB_transition obtain t where t: "transition pendingAB = Some t" ..
  have "tr_toState (the (transition pendingAB)) = ?B"
    and "tr_fromState (the (transition pendingAB)) = Some ?A"
    by code_simp+
  with t have ts: "tr_toState t = ?B" "tr_fromState t = Some ?A" by simp_all
  have nc: "filter is_completed (events pendingAB) \<noteq> []" by code_simp
  have ce: "cancel_events pendingAB =
              [Cancelled (AState (Some stateB)) (AState (Some stateA)),
               Ended (AState (Some stateB)) (AState (Some stateA))]"
    by code_simp
  have ns: "next_source pendingAB =
              Some \<lparr>sw_state = Some stateB, sw_params = Some [(''x'', JNum 1)],
                    sw_pathQuery = None\<rparr>"
    by code_simp
  have cs: "currentState ?st' =
              Some \<lparr>sw_state = Some stateC, sw_params = Some [], sw_pathQuery = Some ''c''\<rparr>"
    by code_simp
  have ne: "length (events ?st') \<noteq> length (events pendingAB)" by code_simp
  then have ne': "events ?st' \<noteq> events pendingAB" by auto
  from lifecycle_order [OF r, of "Navigate ''c'' None" "TransitionError ''hook''"]
  show ?thesis using r q t ts nc ce ns cs ne' by simp
qed

section \<open>A request while a transition is in flight\<close>




section \<open>The round trip of the parameter codec\<close>

lemma map_of_set_prop: "map_of (set_prop ps k v) = (map_of ps)(k \<mapsto> v)"
  by (induction ps) (auto simp: fun_eq_iff)

lemma fst_set_prop: "fst ` set (set_prop ps k v) = insert k (fst ` set ps)"
proof (induction ps)
  case Nil
  show ?case by simp
next
  case (Cons p ps)
  obtain a b where p: "p = (a, b)" by (cases p)
  show ?case
  proof (cases "a = k")
    case True
    with p show ?thesis by simp
  next
    case False
    with p Cons.IH show ?thesis by (simp add: insert_commute)
  qed
qed

lemma distinct_set_prop: "distinct (map fst ps) \<Longrightarrow> distinct (map fst (set_prop ps k v))"
  by (induction ps) (auto simp: fst_set_prop)

lemma map_of_key:
  assumes "n \<in> fst ` set ps"
  obtains v where "map_of ps n = Some v"
  using assms by (cases "map_of ps n") (auto simp: map_of_eq_None_iff)

lemma splitLoop_result:
  assumes "distinct (map fst rest)"
    and "''query'' \<in> fst ` set rest \<and> ''query'' \<notin> set qs
           \<longrightarrow> (\<forall>k \<in> fst ` set rest. k \<notin> set qs) \<and> queryobj acc = None"
    and "(\<exists>p. map_of acc ''query'' = Some (Prim p)) \<longrightarrow> (\<forall>k \<in> fst ` set rest. k \<notin> set qs)"
    and "\<forall>q. queryobj acc = Some q \<longrightarrow> distinct (map fst q)"
  shows "\<exists>cp. splitLoop qs rest acc = Inr cp
      \<and> (\<forall>n. primval cp n =
              (if n \<in> fst ` set rest \<and> n \<notin> set qs then map_of rest n else primval acc n))
      \<and> (case queryobj cp of
            None \<Rightarrow> queryobj acc = None \<and> (\<forall>k \<in> fst ` set rest. k \<notin> set qs)
          | Some q \<Rightarrow> distinct (map fst q)
              \<and> (\<forall>n. map_of q n =
                    (if n \<in> fst ` set rest \<and> n \<in> set qs then map_of rest n
                     else (case queryobj acc of None \<Rightarrow> None | Some q0 \<Rightarrow> map_of q0 n))))"
  using assms
proof (induction rest arbitrary: acc)
  case Nil
  then show ?case by (auto split: option.splits)
next
  case (Cons kv rest)
  obtain key v where kv: "kv = (key, v)" by (cases kv)
  have knot: "key \<notin> fst ` set rest" using Cons.prems(1) kv by auto
  show ?case
  proof (cases "key \<in> set qs")
    case inq: True
    have noprim: "\<not> (\<exists>p. map_of acc ''query'' = Some (Prim p))"
      using Cons.prems(3) inq kv by auto
    define q0 where "q0 = (case queryobj acc of None \<Rightarrow> [] | Some q \<Rightarrow> q)"
    define acc' where "acc' = set_prop acc ''query'' (Obj (set_prop q0 key v))"
    have step: "splitLoop qs (kv # rest) acc = splitLoop qs rest acc'"
      using inq noprim kv
      by (auto simp: acc'_def q0_def queryobj_def split: option.splits crvalue.splits)
    have dq0: "distinct (map fst q0)"
      using Cons.prems(4) by (auto simp: q0_def split: option.splits)
    have qo: "queryobj acc' = Some (set_prop q0 key v)"
      by (simp add: acc'_def queryobj_def map_of_set_prop)
    have pv: "primval acc' n = primval acc n" for n
      using noprim
      by (auto simp: acc'_def primval_def map_of_set_prop split: option.splits crvalue.splits)
    have "\<exists>cp. splitLoop qs rest acc' = Inr cp
      \<and> (\<forall>n. primval cp n =
              (if n \<in> fst ` set rest \<and> n \<notin> set qs then map_of rest n else primval acc' n))
      \<and> (case queryobj cp of
            None \<Rightarrow> queryobj acc' = None \<and> (\<forall>k \<in> fst ` set rest. k \<notin> set qs)
          | Some q \<Rightarrow> distinct (map fst q)
              \<and> (\<forall>n. map_of q n =
                    (if n \<in> fst ` set rest \<and> n \<in> set qs then map_of rest n
                     else (case queryobj acc' of None \<Rightarrow> None | Some q0 \<Rightarrow> map_of q0 n))))"
    proof (rule Cons.IH)
      show "distinct (map fst rest)" using Cons.prems(1) by simp
      show "''query'' \<in> fst ` set rest \<and> ''query'' \<notin> set qs
           \<longrightarrow> (\<forall>k \<in> fst ` set rest. k \<notin> set qs) \<and> queryobj acc' = None"
        using Cons.prems(2) inq kv by auto
      show "(\<exists>p. map_of acc' ''query'' = Some (Prim p)) \<longrightarrow> (\<forall>k \<in> fst ` set rest. k \<notin> set qs)"
        by (simp add: acc'_def map_of_set_prop)
      show "\<forall>q. queryobj acc' = Some q \<longrightarrow> distinct (map fst q)"
        using qo dq0 by (simp add: distinct_set_prop)
    qed
    then obtain cp where cp: "splitLoop qs rest acc' = Inr cp"
      and p: "\<forall>n. primval cp n =
              (if n \<in> fst ` set rest \<and> n \<notin> set qs then map_of rest n else primval acc' n)"
      and q: "case queryobj cp of
            None \<Rightarrow> queryobj acc' = None \<and> (\<forall>k \<in> fst ` set rest. k \<notin> set qs)
          | Some q \<Rightarrow> distinct (map fst q)
              \<and> (\<forall>n. map_of q n =
                    (if n \<in> fst ` set rest \<and> n \<in> set qs then map_of rest n
                     else (case queryobj acc' of None \<Rightarrow> None | Some q0 \<Rightarrow> map_of q0 n)))"
      by blast
    have P: "\<forall>n. primval cp n =
              (if n \<in> fst ` set (kv # rest) \<and> n \<notin> set qs then map_of (kv # rest) n
               else primval acc n)"
      using p pv inq knot kv by auto
    from q qo obtain q' where q': "queryobj cp = Some q'" and dq': "distinct (map fst q')"
      and mq': "\<forall>n. map_of q' n =
                    (if n \<in> fst ` set rest \<and> n \<in> set qs then map_of rest n
                     else map_of (set_prop q0 key v) n)"
      by (auto split: option.splits)
    have Q: "\<forall>n. map_of q' n =
                    (if n \<in> fst ` set (kv # rest) \<and> n \<in> set qs then map_of (kv # rest) n
                     else (case queryobj acc of None \<Rightarrow> None | Some q0 \<Rightarrow> map_of q0 n))"
      using mq' inq knot kv
      by (auto simp: map_of_set_prop q0_def split: option.splits)
    show ?thesis
      using step cp P q' dq' Q by simp
  next
    case notq: False
    define acc' where "acc' = set_prop acc key (Prim v)"
    have step: "splitLoop qs (kv # rest) acc = splitLoop qs rest acc'"
      using notq kv by (simp add: acc'_def)
    have qo: "queryobj acc' = queryobj acc"
      using Cons.prems(2) notq kv
      by (auto simp: acc'_def queryobj_def map_of_set_prop split: option.splits crvalue.splits)
    have pv: "primval acc' n = (if n = key then Some v else primval acc n)" for n
      by (simp add: acc'_def primval_def map_of_set_prop)
    have "\<exists>cp. splitLoop qs rest acc' = Inr cp
      \<and> (\<forall>n. primval cp n =
              (if n \<in> fst ` set rest \<and> n \<notin> set qs then map_of rest n else primval acc' n))
      \<and> (case queryobj cp of
            None \<Rightarrow> queryobj acc' = None \<and> (\<forall>k \<in> fst ` set rest. k \<notin> set qs)
          | Some q \<Rightarrow> distinct (map fst q)
              \<and> (\<forall>n. map_of q n =
                    (if n \<in> fst ` set rest \<and> n \<in> set qs then map_of rest n
                     else (case queryobj acc' of None \<Rightarrow> None | Some q0 \<Rightarrow> map_of q0 n))))"
    proof (rule Cons.IH)
      show "distinct (map fst rest)" using Cons.prems(1) by simp
      show "''query'' \<in> fst ` set rest \<and> ''query'' \<notin> set qs
           \<longrightarrow> (\<forall>k \<in> fst ` set rest. k \<notin> set qs) \<and> queryobj acc' = None"
        using Cons.prems(2) qo by auto
      show "(\<exists>p. map_of acc' ''query'' = Some (Prim p)) \<longrightarrow> (\<forall>k \<in> fst ` set rest. k \<notin> set qs)"
        using Cons.prems(2,3) notq kv
        by (auto simp: acc'_def map_of_set_prop split: if_splits)
      show "\<forall>q. queryobj acc' = Some q \<longrightarrow> distinct (map fst q)"
        using Cons.prems(4) qo by simp
    qed
    then obtain cp where cp: "splitLoop qs rest acc' = Inr cp"
      and p: "\<forall>n. primval cp n =
              (if n \<in> fst ` set rest \<and> n \<notin> set qs then map_of rest n else primval acc' n)"
      and q: "case queryobj cp of
            None \<Rightarrow> queryobj acc' = None \<and> (\<forall>k \<in> fst ` set rest. k \<notin> set qs)
          | Some q \<Rightarrow> distinct (map fst q)
              \<and> (\<forall>n. map_of q n =
                    (if n \<in> fst ` set rest \<and> n \<in> set qs then map_of rest n
                     else (case queryobj acc' of None \<Rightarrow> None | Some q0 \<Rightarrow> map_of q0 n)))"
      by blast
    have P: "\<forall>n. primval cp n =
              (if n \<in> fst ` set (kv # rest) \<and> n \<notin> set qs then map_of (kv # rest) n
               else primval acc n)"
      using p pv notq knot kv by auto
    have Q: "case queryobj cp of
            None \<Rightarrow> queryobj acc = None \<and> (\<forall>k \<in> fst ` set (kv # rest). k \<notin> set qs)
          | Some q \<Rightarrow> distinct (map fst q)
              \<and> (\<forall>n. map_of q n =
                    (if n \<in> fst ` set (kv # rest) \<and> n \<in> set qs then map_of (kv # rest) n
                     else (case queryobj acc of None \<Rightarrow> None | Some q0 \<Rightarrow> map_of q0 n)))"
      using q qo notq knot kv by (auto split: option.splits)
    show ?thesis
      using step cp P Q by simp
  qed
qed

lemma map_of_assignPath:
  "map_of (assignPath names (map f names) ps) =
     (\<lambda>n. if n \<in> set names then Some (f n) else map_of ps n)"
  by (induction names arbitrary: ps) (auto simp: map_of_set_prop fun_eq_iff)

lemma distinct_assignPath:
  "distinct (map fst ps) \<Longrightarrow> distinct (map fst (assignPath names args ps))"
  by (induction names arbitrary: ps args) (simp_all add: distinct_set_prop)

lemma map_of_mergeObjects:
  "distinct (map fst from) \<Longrightarrow> map_of (mergeObjects to from) = map_of to ++ map_of from"
proof (induction "from" arbitrary: to)
  case Nil
  show ?case by simp
next
  case (Cons kv "from")
  obtain k v where kv: "kv = (k, v)" by (cases kv)
  from Cons.prems kv have k: "map_of from k = None" and d: "distinct (map fst from)"
    by (auto simp: map_of_eq_None_iff)
  from Cons.IH [OF d, of "set_prop to k v"] kv k
  show ?case
    by (auto simp: map_of_set_prop fun_eq_iff map_add_def split: option.splits)
qed

lemma distinct_mergeObjects:
  "distinct (map fst to) \<Longrightarrow> distinct (map fst (mergeObjects to from))"
  by (induction "from" arbitrary: to) (auto simp: distinct_set_prop)

lemma decodeAll_decodable:
  "\<forall>v \<in> snd ` set ps. decodable dec v \<Longrightarrow>
     decodeAll dec ps = Inr (map (\<lambda>(k, v). (k, urldecoded dec v)) ps)"
  by (induction ps) (auto simp: decodable_def urldecoded_def split: jsval.splits)

lemma map_fst_values: "map fst (map (\<lambda>(k, v). (k, f v)) ps) = map fst ps"
  by (induction ps) auto

lemma map_of_values: "map_of (map (\<lambda>(k, v). (k, f v)) ps) n = map_option f (map_of ps n)"
  by (induction ps) auto

text \<open>
  The split files a parameter under the query mapping when its name is a name of
  \<^verbatim>\<open>Object.prototype\<close>, whether or not a query parameter is declared under that name.
\<close>

lemma split_inherited_name:
  "''constructor'' \<in> set (placeholders (fullPath stateUser))
   \<and> ''constructor'' \<notin> set (allQueryParams stateUser)
   \<and> toCrossroadsParams env3 stateUser [(''constructor'', JNum 5)]
       = Inr [(''query'', Obj [(''constructor'', JNum 5)])]"
  by (simp add: stateUser_def isWordChar_def allQueryParams_def toCrossroadsParams_def
      queryNames_def env3_def lang3_def objectPrototype_def)

text \<open>
  Claim C7, as the code has it. Let no parameter name declared on the state or an
  ancestor, placeholder of the full path or query parameter, be a name of
  \<^verbatim>\<open>Object.prototype\<close>, and let the names of \<open>P\<close> all be declared; let a path parameter
  named \<open>query\<close> not occur in \<open>P\<close> together with a query parameter; and let every
  string among the values of \<open>P\<close>, once coerced by the routing table, be one that
  URL-decoding accepts. Then merging back the split of \<open>P\<close> gives a mapping that holds,
  under each name of \<open>P\<close>, the value of \<open>P\<close> coerced by the routing table and then
  URL-decoded, and \<open>undefined\<close> under each placeholder for which \<open>P\<close> has no value.
\<close>

theorem merge_split_roundtrip:
  assumes names: "distinct (map fst P)"
    and declared: "fst ` set P \<subseteq> set (placeholders (fullPath state)) \<union> set (allQueryParams state)"
    and plain: "\<forall>k \<in> set (placeholders (fullPath state)) \<union> set (allQueryParams state).
                  k \<notin> set (protoNames (jslang env))"
    and query: "''query'' \<in> fst ` set P \<longrightarrow>
                  ''query'' \<in> set (allQueryParams state)
                  \<or> (\<forall>k \<in> fst ` set P. k \<notin> set (allQueryParams state))"
    and dec: "\<forall>v \<in> snd ` set P. decodable (decodeURIComponent env) (typecast env v)"
  shows "\<exists>R. merge_split env state P = Inr R \<and> distinct (map fst R)
      \<and> (\<forall>n. map_of R n =
            (case map_of P n of
               Some v \<Rightarrow> Some (urldecoded (decodeURIComponent env) (typecast env v))
             | None \<Rightarrow>
                 if n \<in> set (placeholders (fullPath state)) then Some JUndefined else None))"
proof -
  let ?qs = "queryNames env state"
  let ?names = "placeholders (fullPath state)"
  let ?dec = "decodeURIComponent env"
  have inqs: "k \<in> set ?qs \<longleftrightarrow> k \<in> set (allQueryParams state)" if "k \<in> fst ` set P" for k
    using plain declared that by (auto simp: queryNames_def)
  have query': "''query'' \<in> fst ` set P \<and> ''query'' \<notin> set ?qs
                  \<longrightarrow> (\<forall>k \<in> fst ` set P. k \<notin> set ?qs) \<and> queryobj [] = None"
    using query inqs by (auto simp: queryobj_def)
  have "\<exists>cp. splitLoop ?qs P [] = Inr cp
      \<and> (\<forall>n. primval cp n =
              (if n \<in> fst ` set P \<and> n \<notin> set ?qs then map_of P n else primval [] n))
      \<and> (case queryobj cp of
            None \<Rightarrow> queryobj [] = None \<and> (\<forall>k \<in> fst ` set P. k \<notin> set ?qs)
          | Some q \<Rightarrow> distinct (map fst q)
              \<and> (\<forall>n. map_of q n =
                    (if n \<in> fst ` set P \<and> n \<in> set ?qs then map_of P n
                     else (case queryobj [] of None \<Rightarrow> None | Some q0 \<Rightarrow> map_of q0 n))))"
    using names query' by (intro splitLoop_result) (auto simp: queryobj_def)
  then obtain cp where cp: "splitLoop ?qs P [] = Inr cp"
    and pv0: "\<forall>n. primval cp n =
              (if n \<in> fst ` set P \<and> n \<notin> set ?qs then map_of P n else primval [] n)"
    and qo0: "case queryobj cp of
            None \<Rightarrow> queryobj [] = None \<and> (\<forall>k \<in> fst ` set P. k \<notin> set ?qs)
          | Some q \<Rightarrow> distinct (map fst q)
              \<and> (\<forall>n. map_of q n =
                    (if n \<in> fst ` set P \<and> n \<in> set ?qs then map_of P n
                     else (case queryobj [] of None \<Rightarrow> None | Some q0 \<Rightarrow> map_of q0 n)))"
    by blast
  have e1: "primval [] n = None" for n by (simp add: primval_def)
  have e2: "queryobj [] = None" by (simp add: queryobj_def)
  have pv: "primval cp n = (if n \<in> fst ` set P \<and> n \<notin> set ?qs then map_of P n else None)"
    for n
    using pv0 e1 by simp
  have qo: "case queryobj cp of
            None \<Rightarrow> (\<forall>k \<in> fst ` set P. k \<notin> set ?qs)
          | Some q \<Rightarrow> distinct (map fst q)
              \<and> (\<forall>n. map_of q n =
                    (if n \<in> fst ` set P \<and> n \<in> set ?qs then map_of P n else None))"
    using qo0 e2 by (simp split: option.splits)
  define R0 where "R0 = assignPath ?names (map (pathval env cp) ?names) []"
  define Q where "Q = map_option (map (\<lambda>(k, v). (k, typecast env v))) (queryobj cp)"
  define M where "M = (case Q of None \<Rightarrow> R0 | Some q \<Rightarrow> mergeObjects R0 q)"
  define R where "R = map (\<lambda>(k, v). (k, urldecoded ?dec v)) M"
  have dR0: "distinct (map fst R0)"
    by (simp add: R0_def distinct_assignPath)
  have mR0: "map_of R0 n = (if n \<in> set ?names then Some (pathval env cp n) else None)" for n
    by (simp add: R0_def map_of_assignPath)
  have dM: "distinct (map fst M)"
    using dR0 by (simp add: M_def distinct_mergeObjects split: option.splits)
  have absent: "map_of P n = None" if "n \<notin> fst ` set P" for n
    using that by (simp add: map_of_eq_None_iff)
  have mQ: "(case Q of None \<Rightarrow> None | Some q \<Rightarrow> map_of q n) =
              (if n \<in> fst ` set P \<and> n \<in> set ?qs
               then map_option (typecast env) (map_of P n) else None)" for n
  proof (cases "queryobj cp")
    case None
    with qo have "\<forall>k \<in> fst ` set P. k \<notin> set ?qs" by simp
    with None show ?thesis by (auto simp: Q_def)
  next
    case (Some q)
    with qo have "map_of q n = (if n \<in> fst ` set P \<and> n \<in> set ?qs then map_of P n else None)"
      by simp
    with Some show ?thesis by (simp add: Q_def map_of_values)
  qed
  have mM0: "map_of M n = (case (case Q of None \<Rightarrow> None | Some q \<Rightarrow> map_of q n) of
                             Some v \<Rightarrow> Some v | None \<Rightarrow> map_of R0 n)" for n
  proof (cases Q)
    case None
    then show ?thesis by (simp add: M_def)
  next
    case (Some q)
    then obtain q1 where "queryobj cp = Some q1"
      and q: "q = map (\<lambda>(k, v). (k, typecast env v)) q1"
      by (auto simp: Q_def)
    with qo have "distinct (map fst q1)" by simp
    then have "distinct (map fst q)" unfolding q map_fst_values .
    then have "map_of M n = (map_of R0 ++ map_of q) n"
      using Some by (simp add: M_def map_of_mergeObjects)
    with Some show ?thesis by (simp add: map_add_def split: option.splits)
  qed
  have mM: "map_of M n =
              (case map_of P n of
                 Some v \<Rightarrow> Some (typecast env v)
               | None \<Rightarrow> if n \<in> set ?names then Some JUndefined else None)" for n
  proof (cases "n \<in> fst ` set P")
    case False
    with pv [of n] have "pathval env cp n = JUndefined" by (simp add: pathval_def)
    with False absent [OF False] mM0 [of n] mQ [of n] mR0 [of n] show ?thesis by simp
  next
    case True
    then obtain v where v: "map_of P n = Some v" by (rule map_of_key)
    show ?thesis
    proof (cases "n \<in> set ?qs")
      case inq: True
      with True v mM0 [of n] mQ [of n] show ?thesis by simp
    next
      case notq: False
      with True inqs [OF True] declared have "n \<in> set ?names" by auto
      moreover from True notq v pv [of n] have "pathval env cp n = typecast env v"
        by (simp add: pathval_def)
      ultimately show ?thesis
        using True notq v mM0 [of n] mQ [of n] mR0 [of n] by simp
    qed
  qed
  have "\<forall>w \<in> snd ` set M. decodable ?dec w"
  proof
    fix w assume "w \<in> snd ` set M"
    then obtain k where "(k, w) \<in> set M" by auto
    with dM have kw: "map_of M k = Some w" by simp
    show "decodable ?dec w"
    proof (cases "map_of P k")
      case None
      with kw mM [of k] have "w = JUndefined" by (simp split: if_splits)
      then show ?thesis by (simp add: decodable_def)
    next
      case (Some v)
      then have "v \<in> snd ` set P" by (force dest: map_of_SomeD)
      with dec have "decodable ?dec (typecast env v)" by blast
      with Some kw mM [of k] show ?thesis by simp
    qed
  qed
  then have decM: "decodeAll ?dec M = Inr R"
    unfolding R_def by (rule decodeAll_decodable)
  have "fromCrossroadsParams env state (route_args env state cp) = decodeAll ?dec M"
    by (simp add: fromCrossroadsParams_def route_args_def M_def Q_def R0_def Let_def
        split: option.splits)
  moreover have "toCrossroadsParams env state P = Inr cp"
    using cp by (simp add: toCrossroadsParams_def)
  ultimately have ms: "merge_split env state P = Inr R"
    using decM by (simp add: merge_split_def)
  have dR: "distinct (map fst R)"
    using dM unfolding R_def map_fst_values .
  have mR: "map_of R n =
              (case map_of P n of
                 Some v \<Rightarrow> Some (urldecoded ?dec (typecast env v))
               | None \<Rightarrow> if n \<in> set ?names then Some JUndefined else None)" for n
    using mM [of n]
    by (simp add: R_def map_of_values urldecoded_def split: option.splits)
  from ms dR mR show ?thesis by blast
qed

theorem merge_split_roundtrip_witness:
  "distinct (map fst [(''id'', JStr ''33''), (''filter'', JStr ''desc'')])
   \<and> ''id'' \<in> set (placeholders (fullPath stateItem))
   \<and> ''filter'' \<in> set (allQueryParams stateItem)
   \<and> ''id'' \<notin> set (protoNames (jslang env3))
   \<and> ''filter'' \<notin> set (protoNames (jslang env3))
   \<and> typecast env3 (JStr ''33'') = JNum 33
   \<and> typecast env3 (JStr ''desc'') = JStr ''desc''
   \<and> decodable (decodeURIComponent env3) (JNum 33)
   \<and> decodable (decodeURIComponent env3) (JStr ''desc'')
   \<and> (case merge_split env3 stateItem [(''id'', JStr ''33''), (''filter'', JStr ''desc'')] of
         Inl e \<Rightarrow> False
       | Inr R \<Rightarrow> map_of R ''id'' = Some (JNum 33) \<and> map_of R ''filter'' = Some (JStr ''desc''))"
proof -
  let ?P = "[(''id'', JStr ''33''), (''filter'', JStr ''desc'')]"
  have ph: "placeholders (fullPath stateItem) = [''id'']"
    by (simp add: stateItem_def isWordChar_def)
  have qs: "allQueryParams stateItem = [''filter'']"
    by (simp add: stateItem_def allQueryParams_def)
  have tc: "typecast env3 (JStr ''33'') = JNum 33" "typecast env3 (JStr ''desc'') = JStr ''desc''"
    by (simp_all add: env3_def typecast3_def)
  have dc: "decodable (decodeURIComponent env3) (JNum 33)"
    "decodable (decodeURIComponent env3) (JStr ''desc'')"
    by (simp_all add: decodable_def env3_def)
  have h1: "distinct (map fst ?P)" by simp
  have h2: "fst ` set ?P \<subseteq> set (placeholders (fullPath stateItem)) \<union> set (allQueryParams stateItem)"
    by (simp add: ph qs)
  have h3: "\<forall>k \<in> set (placeholders (fullPath stateItem)) \<union> set (allQueryParams stateItem).
              k \<notin> set (protoNames (jslang env3))"
    by (simp add: ph qs env3_def lang3_def objectPrototype_def)
  have h4: "''query'' \<in> fst ` set ?P \<longrightarrow>
              ''query'' \<in> set (allQueryParams stateItem)
              \<or> (\<forall>k \<in> fst ` set ?P. k \<notin> set (allQueryParams stateItem))"
    by simp
  have h5: "\<forall>v \<in> snd ` set ?P. decodable (decodeURIComponent env3) (typecast env3 v)"
    using tc dc by simp
  from merge_split_roundtrip [OF h1 h2 h3 h4 h5]
  obtain R where "merge_split env3 stateItem ?P = Inr R"
    and "\<forall>n. map_of R n =
            (case map_of ?P n of
               Some v \<Rightarrow> Some (urldecoded (decodeURIComponent env3) (typecast env3 v))
             | None \<Rightarrow>
                 if n \<in> set (placeholders (fullPath stateItem)) then Some JUndefined else None)"
    by blast
  moreover have "decodeURIComponent env3 = Some" by (simp add: env3_def)
  ultimately show ?thesis using h1 h3 tc dc
    by (simp add: ph qs urldecoded_def)
qed

text \<open>
  The claim as the specification words it fails. The name \<open>id\<close> is declared on the
  state, the routing table leaves the value \<open>%41\<close> as it is, and it comes back as
  \<open>A\<close>: the split does not encode what the merge decodes; the value \<open>%\<close>, which
  URL-decoding refuses, makes the merge throw. And with the path parameter \<open>query\<close> and
  the query parameter \<open>page\<close>, both declared, the split throws a type error.
\<close>

theorem merge_split_counterexample:
  "''id'' \<in> set (placeholders (fullPath stateItem))
   \<and> typecast envDec (JStr ''%41'') = JStr ''%41''
   \<and> merge_split envDec stateItem [(''id'', JStr ''%41'')] = Inr [(''id'', JStr ''A'')]
   \<and> typecast envDec (JStr ''%'') = JStr ''%''
   \<and> merge_split envDec stateItem [(''id'', JStr ''%'')] = Inl URIError
   \<and> ''query'' \<in> set (placeholders (fullPath stateSearch))
   \<and> ''page'' \<in> set (allQueryParams stateSearch)
   \<and> merge_split envDec stateSearch [(''query'', JStr ''x''), (''page'', JNum 2)]
       = Inl TypeError"
proof -
  have ph: "placeholders (fullPath stateItem) = [''id'']"
    "placeholders (fullPath stateSearch) = [''query'']"
    by (simp_all add: stateItem_def stateSearch_def isWordChar_def)
  have qs: "queryNames envDec stateItem = ''filter'' # objectPrototype"
    "queryNames envDec stateSearch = ''page'' # objectPrototype"
    "allQueryParams stateSearch = [''page'']"
    by (simp_all add: stateItem_def stateSearch_def allQueryParams_def queryNames_def
        envDec_def env3_def lang3_def)
  have tc: "typecast envDec (JStr ''%41'') = JStr ''%41''"
    "typecast envDec (JStr ''%'') = JStr ''%''"
    by (simp_all add: envDec_def env3_def typecast3_def)
  have a: "merge_split envDec stateItem [(''id'', JStr ''%41'')] = Inr [(''id'', JStr ''A'')]"
    using tc
    by (simp add: merge_split_def toCrossroadsParams_def fromCrossroadsParams_def
        route_args_def pathval_def primval_def queryobj_def ph qs objectPrototype_def
        envDec_def)
  have b: "merge_split envDec stateItem [(''id'', JStr ''%'')] = Inl URIError"
    using tc
    by (simp add: merge_split_def toCrossroadsParams_def fromCrossroadsParams_def
        route_args_def pathval_def primval_def queryobj_def ph qs objectPrototype_def
        envDec_def)
  have c: "merge_split envDec stateSearch [(''query'', JStr ''x''), (''page'', JNum 2)]
             = Inl TypeError"
    by (simp add: merge_split_def toCrossroadsParams_def qs objectPrototype_def)
  show ?thesis using a b c tc by (simp add: ph qs)
qed

end
